theory Spec2Isabelle
  imports Main "HOL-Library.Word"
begin

unbundle bit_operations_syntax

section \<open>MRT record parser of bgpctl (mrtparser.c)\<close>

text \<open>
  The functions of \<^verbatim>\<open>usr.sbin/bgpctl/mrtparser.c\<close> as HOL functions. A C buffer is
  a list of bytes together with an offset into it (the pointer); the C integer
  variables keep their widths: \<^verbatim>\<open>u_int len\<close> is a 32-bit word, \<^verbatim>\<open>uint16_t\<close> a
  16-bit word, and \<^verbatim>\<open>int alen\<close> of \<^verbatim>\<open>mrt_extract_attr\<close> is an \<open>int\<close> (it stays
  between \<open>-65541\<close> and \<open>65535\<close>, so it never overflows).
  The diagnostics printed under \<^verbatim>\<open>verbose\<close> change no result and are left out,
  and allocation is taken to succeed.
\<close>

subsection \<open>Results and buffer reads\<close>

type_synonym u8 = "8 word"

type_synonym u16 = "16 word"

type_synonym u32 = "32 word"

text \<open>
  How a C function can end other than by returning a value:
  \<^item> \<open>Reject\<close>: the function returns \<^verbatim>\<open>-1\<close> or \<^verbatim>\<open>NULL\<close>;
  \<^item> \<open>TooManyAttrs\<close>, \<open>BadSubtype\<close>, \<open>ReadError\<close>: the process exits through
    \<^verbatim>\<open>err(1, ...)\<close> or \<^verbatim>\<open>errx(1, ...)\<close>;
  \<^item> \<open>OutOfBounds\<close>: the function accesses memory outside the buffer it was given
    (undefined behaviour in C).
\<close>

datatype error = Reject | TooManyAttrs | BadSubtype | ReadError | OutOfBounds

definition bindr :: "error + 'a \<Rightarrow> ('a \<Rightarrow> error + 'b) \<Rightarrow> error + 'b" where
  "bindr m f = (case m of Inl e \<Rightarrow> Inl e | Inr x \<Rightarrow> f x)"

text \<open>\<^verbatim>\<open>*p\<close> for a pointer at offset \<open>i\<close> of \<open>buf\<close>.\<close>

definition rd_u8 :: "u8 list \<Rightarrow> nat \<Rightarrow> error + u8" where
  "rd_u8 buf i = (if i < length buf then Inr (buf ! i) else Inl OutOfBounds)"

text \<open>The source bytes of \<^verbatim>\<open>memcpy(dst, p, n)\<close>; copying no byte reads nothing.\<close>

definition rd_bytes :: "u8 list \<Rightarrow> nat \<Rightarrow> nat \<Rightarrow> error + u8 list" where
  "rd_bytes buf i n =
     (if n = 0 then Inr []
      else if i + n \<le> length buf then Inr (take n (drop i buf))
      else Inl OutOfBounds)"

text \<open>The value of bytes in network order (\<^verbatim>\<open>ntohs\<close>, \<^verbatim>\<open>ntohl\<close> of copied bytes).\<close>

definition be_word :: "u8 list \<Rightarrow> 'a::len word" where
  "be_word bs = foldl (\<lambda>w b. w * 256 + ucast b) 0 bs"

definition rd_u16 :: "u8 list \<Rightarrow> nat \<Rightarrow> error + u16" where
  "rd_u16 buf i = bindr (rd_bytes buf i 2) (\<lambda>bs. Inr (be_word bs))"

definition rd_u32 :: "u8 list \<Rightarrow> nat \<Rightarrow> error + u32" where
  "rd_u32 buf i = bindr (rd_bytes buf i 4) (\<lambda>bs. Inr (be_word bs))"

subsection \<open>Addresses and RIB entries\<close>

text \<open>
  Modelled from the spec: the address identifiers \<^verbatim>\<open>AID_*\<close> and \<^verbatim>\<open>struct bgpd_addr\<close>
  of bgpd.h, which is not part of the sources at hand. An address carries its family
  tag and the address bytes; \<open>v\<close> holds the 16 bytes that the members \<^verbatim>\<open>v4\<close> and
  \<^verbatim>\<open>v6\<close> share, \<^verbatim>\<open>v4\<close> being the first four.
\<close>

datatype aid = AID_UNSPEC | AID_INET | AID_INET6 | AID_VPN_IPv4 | AID_VPN_IPv6

record bgpd_addr =
  aid :: aid
  v :: "u8 list"

definition addr_zero :: bgpd_addr where
  "addr_zero = \<lparr>aid = AID_UNSPEC, v = replicate 16 0\<rparr>"

definition set_v4 :: "u8 list \<Rightarrow> u8 list \<Rightarrow> u8 list" where
  "set_v4 bs old = bs @ drop 4 old"

text \<open>
  Modelled from the spec: \<^verbatim>\<open>struct mrt_attr\<close> and \<^verbatim>\<open>struct mrt_rib_entry\<close> of
  mrtparser.h, which is not part of the sources at hand. \<open>aspath = None\<close> is the
  \<^verbatim>\<open>NULL\<close> pointer. The counter \<open>nattrs\<close> never exceeds 255 here (see
  \<open>attr_default\<close>), which every unsigned C type holds, so it is a \<open>nat\<close>.
\<close>

record mrt_attr =
  attr :: "u8 list"
  attr_len :: nat

record mrt_rib_entry =
  aspath :: "u8 list option"
  attrs :: "mrt_attr list"
  nexthop :: bgpd_addr
  originated :: u32
  local_pref :: u32
  med :: u32
  path_id :: u32
  peer_idx :: u16
  aspath_len :: u16
  nattrs :: nat
  origin :: u8

text \<open>An entry as \<^verbatim>\<open>calloc\<close> returns it.\<close>

definition entry_zero :: mrt_rib_entry where
  "entry_zero = \<lparr>aspath = None, attrs = [], nexthop = addr_zero, originated = 0,
     local_pref = 0, med = 0, path_id = 0, peer_idx = 0, aspath_len = 0, nattrs = 0,
     origin = 0\<rparr>"

text \<open>
  Modelled from the spec: the attribute constants \<^verbatim>\<open>MRT_ATTR_*\<close> of mrtparser.h
  (the attribute type codes and the extended-length flag \<open>0x10\<close>).
\<close>

definition MRT_ATTR_ORIGIN :: u8 where "MRT_ATTR_ORIGIN = 1"

definition MRT_ATTR_ASPATH :: u8 where "MRT_ATTR_ASPATH = 2"

definition MRT_ATTR_NEXTHOP :: u8 where "MRT_ATTR_NEXTHOP = 3"

definition MRT_ATTR_MED :: u8 where "MRT_ATTR_MED = 4"

definition MRT_ATTR_LOCALPREF :: u8 where "MRT_ATTR_LOCALPREF = 5"

definition MRT_ATTR_MP_REACH_NLRI :: u8 where "MRT_ATTR_MP_REACH_NLRI = 14"

definition MRT_ATTR_AS4PATH :: u8 where "MRT_ATTR_AS4PATH = 17"

definition MRT_ATTR_EXTLEN :: u8 where "MRT_ATTR_EXTLEN = 16"

subsection \<open>\<^verbatim>\<open>mrt_aspath_inflate\<close>\<close>

lemma bindr_cong [fundef_cong]:
  "m = m' \<Longrightarrow> (\<And>x. m' = Inr x \<Longrightarrow> f x = f' x) \<Longrightarrow> bindr m f = bindr m' f'"
  by (simp add: bindr_def split: sum.splits)

lemma unat_u8_less: "unat (x :: u8) < 256"
  using unsigned_less [of x, where 'a = nat] by simp

lemma unat_ucast_u8_u16: "unat (ucast (x :: u8) :: u16) = unat x"
  using unat_u8_less [of x] by (simp add: unsigned_ucast_eq take_bit_nat_eq_self)

lemma unat_seg_size: "unat (2 + 2 * ucast (x :: u8) :: u16) = 2 + 2 * unat x"
  using unat_u8_less [of x] by (simp add: unat_word_ariths unat_ucast_u8_u16)

text \<open>
  The first loop: \<open>seg\<close> is the offset of the current segment, \<open>olen\<close> the input
  bytes left, \<open>nlen\<close> the 16-bit output length so far. \<^verbatim>\<open>seg[1]\<close> is read before the
  segment is compared with \<open>olen\<close>.
\<close>

function aspath_nlen :: "u8 list \<Rightarrow> nat \<Rightarrow> u16 \<Rightarrow> u16 \<Rightarrow> error + u16" where
  "aspath_nlen buf seg olen nlen =
     (if olen > 0 then
        bindr (rd_u8 buf (seg + 1)) (\<lambda>seg_len.
          let seg_size = 2 + 2 * ucast seg_len :: u16;
              nlen' = nlen + (2 + 4 * ucast seg_len)
          in if seg_size > olen then Inl Reject
             else aspath_nlen buf (seg + unat seg_size) (olen - seg_size) nlen')
      else Inr nlen)"
  by pat_completeness auto

termination
proof (relation "measure (\<lambda>(buf, seg, olen, nlen). unat olen)")
  show "wf (measure (\<lambda>(buf, seg, olen, nlen). unat olen))" by simp
next
  fix buf :: "u8 list" and seg :: nat and olen nlen :: u16 and x :: u8
    and xa :: u16 and xb :: u16
  assume xa: "xa = 2 + 2 * ucast x" and le: "\<not> olen < xa"
  have "unat xa = 2 + 2 * unat x" by (simp add: xa unat_seg_size)
  moreover have "unat xa \<le> unat olen" using le by (simp add: word_le_nat_alt not_less)
  ultimately have "unat (olen - xa) < unat olen"
    by (simp add: unat_sub word_le_nat_alt)
  then show "((buf, seg + unat xa, olen - xa, xb), (buf, seg, olen, nlen))
             \<in> measure (\<lambda>(buf, seg, olen, nlen). unat olen)"
    by simp
qed

declare aspath_nlen.simps [simp del]

text \<open>
  The inner loop of the copy pass: \<open>n\<close> AS numbers of two bytes at offset \<open>seg\<close>,
  each written as two zero bytes and the two bytes read.
\<close>

fun inflate_asns :: "u8 list \<Rightarrow> nat \<Rightarrow> nat \<Rightarrow> error + u8 list" where
  "inflate_asns buf seg 0 = Inr []"
| "inflate_asns buf seg (Suc n) =
     bindr (rd_u8 buf seg) (\<lambda>hi.
     bindr (rd_u8 buf (seg + 1)) (\<lambda>lo.
     bindr (inflate_asns buf (seg + 2) n) (\<lambda>rest.
     Inr (0 # 0 # hi # lo # rest))))"

text \<open>
  Writing \<open>bs\<close> at the end of the output written so far, into a buffer allocated with
  \<open>nlen\<close> bytes.
\<close>

definition wr_out :: "nat \<Rightarrow> u8 list \<Rightarrow> u8 list \<Rightarrow> error + u8 list" where
  "wr_out nlen out bs =
     (if length out + length bs \<le> nlen then Inr (out @ bs) else Inl OutOfBounds)"

text \<open>
  The copy pass: segments are copied while the output position is below \<open>nlen\<close>;
  \<open>out\<close> is what has been written to \<^verbatim>\<open>ndata\<close>.
\<close>

function aspath_copy :: "u8 list \<Rightarrow> nat \<Rightarrow> nat \<Rightarrow> u8 list \<Rightarrow> error + u8 list" where
  "aspath_copy buf seg nlen out =
     (if length out < nlen then
        bindr (rd_u8 buf seg) (\<lambda>seg_type.
        bindr (rd_u8 buf (seg + 1)) (\<lambda>seg_len.
        bindr (inflate_asns buf (seg + 2) (unat seg_len)) (\<lambda>asns.
        bindr (wr_out nlen out (seg_type # seg_len # asns)) (\<lambda>out'.
        aspath_copy buf (seg + 2 + 2 * unat seg_len) nlen out'))))
      else Inr out)"
  by pat_completeness auto

termination
  by (relation "measure (\<lambda>(buf, seg, nlen, out). nlen - length out)")
     (auto simp: wr_out_def split: if_splits)

declare aspath_copy.simps [simp del]

text \<open>
  \<^verbatim>\<open>mrt_aspath_inflate(data, len, newlen)\<close>: the result is the new buffer together
  with the value stored in \<^verbatim>\<open>*newlen\<close>; \<open>Inl Reject\<close> is the \<^verbatim>\<open>NULL\<close> return.
\<close>

definition mrt_aspath_inflate :: "u8 list \<Rightarrow> nat \<Rightarrow> u16 \<Rightarrow> error + (u8 list \<times> u16)" where
  "mrt_aspath_inflate buf data len =
     bindr (aspath_nlen buf data len 0) (\<lambda>nlen.
     bindr (aspath_copy buf data (unat nlen) []) (\<lambda>ndata.
     Inr (ndata, nlen)))"

subsection \<open>\<^verbatim>\<open>mrt_extract_attr\<close>\<close>

text \<open>
  The \<^verbatim>\<open>default\<close> case of the switch, which \<^verbatim>\<open>MRT_ATTR_AS4PATH\<close> falls through to when
  \<open>as4\<close> is set: the attribute is copied whole, from its first byte at \<open>attr0\<close> to the
  end of its payload at \<open>a + attr_len\<close>.
\<close>

definition attr_default :: "mrt_rib_entry \<Rightarrow> u8 list \<Rightarrow> nat \<Rightarrow> nat \<Rightarrow> u16 \<Rightarrow>
    error + mrt_rib_entry" where
  "attr_default re buf attr0 a alen16 =
     (let n = nattrs re + 1 in
      if n \<ge> 255 then Inl TooManyAttrs
      else
        let ap_len = a + unat alen16 - attr0 in
        bindr (rd_bytes buf attr0 ap_len) (\<lambda>bs.
        Inr (re\<lparr>nattrs := n, attrs := attrs re @ [\<lparr>attr = bs, attr_len = ap_len\<rparr>]\<rparr>)))"

text \<open>
  The \<^verbatim>\<open>MRT_ATTR_MP_REACH_NLRI\<close> case. The comparison \<^verbatim>\<open>*a != attr_len - 1\<close> is made
  on \<^verbatim>\<open>int\<close>; \<^verbatim>\<open>attr_len -= 3\<close> is a 16-bit subtraction. The result carries the
  changed \<open>a\<close>, \<open>alen\<close> and \<open>attr_len\<close>.
\<close>

definition attr_mp_reach :: "mrt_rib_entry \<Rightarrow> u8 list \<Rightarrow> nat \<Rightarrow> int \<Rightarrow> u16 \<Rightarrow> aid \<Rightarrow>
    error + (mrt_rib_entry \<times> nat \<times> int \<times> u16)" where
  "attr_mp_reach re buf a alen alen16 aid' =
     bindr (rd_u8 buf a) (\<lambda>first.
       let (a1, alen1, len1) =
             (if uint first \<noteq> uint alen16 - 1 then (a + 3, alen - 3, alen16 - 3)
              else (a, alen, alen16))
       in case aid' of
            AID_INET6 \<Rightarrow>
              if len1 < 17 then Inl Reject
              else bindr (rd_bytes buf (a1 + 1) 16) (\<lambda>bs.
                   Inr (re\<lparr>nexthop := \<lparr>aid = aid', v = bs\<rparr>\<rparr>, a1, alen1, len1))
          | AID_VPN_IPv4 \<Rightarrow>
              if len1 < 12 then Inl Reject
              else bindr (rd_bytes buf (a1 + 1 + 8) 4) (\<lambda>bs.
                   Inr (re\<lparr>nexthop := \<lparr>aid = aid', v = set_v4 bs (v (nexthop re))\<rparr>\<rparr>,
                        a1, alen1, len1))
          | AID_VPN_IPv6 \<Rightarrow>
              if len1 < 24 then Inl Reject
              else bindr (rd_bytes buf (a1 + 1 + 8) 16) (\<lambda>bs.
                   Inr (re\<lparr>nexthop := \<lparr>aid = aid', v = bs\<rparr>\<rparr>, a1, alen1, len1))
          | _ \<Rightarrow> Inr (re, a1, alen1, len1))"

text \<open>
  The switch on the attribute type. \<open>attr0\<close> is the offset of the attribute's first
  byte, \<open>a\<close> the offset of its payload, \<open>alen\<close> the bytes of the span left after the
  attribute's header and \<open>alen16\<close> the declared payload length (\<^verbatim>\<open>attr_len\<close>).
\<close>

definition attr_switch :: "mrt_rib_entry \<Rightarrow> u8 list \<Rightarrow> nat \<Rightarrow> nat \<Rightarrow> int \<Rightarrow> u16 \<Rightarrow> u8 \<Rightarrow>
    aid \<Rightarrow> bool \<Rightarrow> error + (mrt_rib_entry \<times> nat \<times> int \<times> u16)" where
  "attr_switch re buf attr0 a alen alen16 type aid' as4 =
     (if type = MRT_ATTR_ORIGIN then
        if alen16 \<noteq> 1 then Inl Reject
        else bindr (rd_u8 buf a) (\<lambda>x. Inr (re\<lparr>origin := x\<rparr>, a, alen, alen16))
      else if type = MRT_ATTR_ASPATH then
        if as4 then
          bindr (rd_bytes buf a (unat alen16)) (\<lambda>bs.
          Inr (re\<lparr>aspath_len := alen16, aspath := Some bs\<rparr>, a, alen, alen16))
        else
          bindr (mrt_aspath_inflate buf a alen16) (\<lambda>(ndata, newlen).
          Inr (re\<lparr>aspath := Some ndata, aspath_len := newlen\<rparr>, a, alen, alen16))
      else if type = MRT_ATTR_NEXTHOP then
        if alen16 \<noteq> 4 then Inl Reject
        else if aid' \<noteq> AID_INET then Inr (re, a, alen, alen16)
        else bindr (rd_bytes buf a 4) (\<lambda>bs.
             Inr (re\<lparr>nexthop := \<lparr>aid = AID_INET, v = set_v4 bs (v (nexthop re))\<rparr>\<rparr>,
                  a, alen, alen16))
      else if type = MRT_ATTR_MED then
        if alen16 \<noteq> 4 then Inl Reject
        else bindr (rd_u32 buf a) (\<lambda>x. Inr (re\<lparr>med := x\<rparr>, a, alen, alen16))
      else if type = MRT_ATTR_LOCALPREF then
        if alen16 \<noteq> 4 then Inl Reject
        else bindr (rd_u32 buf a) (\<lambda>x. Inr (re\<lparr>local_pref := x\<rparr>, a, alen, alen16))
      else if type = MRT_ATTR_MP_REACH_NLRI then
        attr_mp_reach re buf a alen alen16 aid'
      else if type = MRT_ATTR_AS4PATH \<and> \<not> as4 then
        bindr (rd_bytes buf a (unat alen16)) (\<lambda>bs.
        Inr (re\<lparr>aspath_len := alen16, aspath := Some bs\<rparr>, a, alen, alen16))
      else
        bindr (attr_default re buf attr0 a alen16) (\<lambda>re'. Inr (re', a, alen, alen16)))"

text \<open>
  The attribute header: flags, type and a length of one byte, or of two bytes when
  \<^verbatim>\<open>MRT_ATTR_EXTLEN\<close> is set in the flags. The result is the type, the declared length,
  the offset of the payload and the bytes of the span left after the header.
\<close>

definition attr_header :: "u8 list \<Rightarrow> nat \<Rightarrow> int \<Rightarrow> error + (u8 \<times> u16 \<times> nat \<times> int)" where
  "attr_header buf a alen =
     (if alen < 3 then Inl Reject
      else
        bindr (rd_u8 buf a) (\<lambda>flags.
        bindr (rd_u8 buf (a + 1)) (\<lambda>type.
        if flags AND MRT_ATTR_EXTLEN \<noteq> 0 then
          if alen - 2 < 2 then Inl Reject
          else bindr (rd_u16 buf (a + 2)) (\<lambda>l. Inr (type, l, a + 4, alen - 4))
        else
          bindr (rd_u8 buf (a + 2)) (\<lambda>l. Inr (type, ucast l, a + 3, alen - 3)))))"

text \<open>
  One round of the \<^verbatim>\<open>do ... while\<close> loop: the entry, the offset \<open>a\<close> and the
  length \<open>alen\<close> after one attribute.
\<close>

definition attr_step :: "mrt_rib_entry \<Rightarrow> u8 list \<Rightarrow> nat \<Rightarrow> int \<Rightarrow> aid \<Rightarrow> bool \<Rightarrow>
    error + (mrt_rib_entry \<times> nat \<times> int)" where
  "attr_step re buf a alen aid' as4 =
     bindr (attr_header buf a alen) (\<lambda>(type, alen16, a1, alen1).
     bindr (attr_switch re buf a a1 alen1 alen16 type aid' as4) (\<lambda>(re', a2, alen2, len2).
     Inr (re', a2 + unat len2, alen2 - uint len2)))"

lemma attr_mp_reach_alen:
  "attr_mp_reach re buf a alen alen16 aid' = Inr (re', a2, alen2, len2) \<Longrightarrow> alen2 \<le> alen"
  by (auto simp: attr_mp_reach_def bindr_def Let_def
      split: sum.splits if_splits aid.splits prod.splits)

lemma attr_switch_alen:
  "attr_switch re buf attr0 a alen alen16 type aid' as4 = Inr (re', a2, alen2, len2)
   \<Longrightarrow> alen2 \<le> alen"
  by (auto simp: attr_switch_def bindr_def dest: attr_mp_reach_alen
      split: sum.splits if_splits prod.splits)

lemma attr_header_alen:
  "attr_header buf a alen = Inr (type, alen16, a1, alen1) \<Longrightarrow> alen1 \<le> alen - 3"
  by (auto simp: attr_header_def bindr_def split: sum.splits if_splits)

lemma attr_step_alen:
  assumes "attr_step re buf a alen aid' as4 = Inr (re', a', alen')"
  shows "alen' \<le> alen - 3"
proof -
  from assms obtain type alen16 a1 alen1 re1 a2 alen2 len2 where
    h: "attr_header buf a alen = Inr (type, alen16, a1, alen1)" and
    s: "attr_switch re buf a a1 alen1 alen16 type aid' as4 = Inr (re1, a2, alen2, len2)" and
    r: "alen' = alen2 - uint len2"
    by (auto simp: attr_step_def bindr_def split: sum.splits prod.splits)
  have "0 \<le> uint len2" by simp
  with attr_header_alen [OF h] attr_switch_alen [OF s] r show ?thesis by linarith
qed

text \<open>
  \<^verbatim>\<open>mrt_extract_attr(re, a, alen, aid, as4)\<close>: the entry as the loop leaves it when
  the function returns 0; \<open>Inl Reject\<close> is the return of \<^verbatim>\<open>-1\<close>.
\<close>

function mrt_extract_attr :: "mrt_rib_entry \<Rightarrow> u8 list \<Rightarrow> nat \<Rightarrow> int \<Rightarrow> aid \<Rightarrow> bool \<Rightarrow>
    error + mrt_rib_entry" where
  "mrt_extract_attr re buf a alen aid' as4 =
     bindr (attr_step re buf a alen aid' as4) (\<lambda>(re', a', alen').
     if alen' > 0 then mrt_extract_attr re' buf a' alen' aid' as4 else Inr re')"
  by pat_completeness auto

termination
proof (relation "measure (\<lambda>(re, buf, a, alen, aid', as4). nat alen)")
  show "wf (measure (\<lambda>(re, buf, a, alen, aid', as4). nat alen))" by simp
next
  fix re :: mrt_rib_entry and buf :: "u8 list" and a :: nat and alen :: int
    and aid' :: aid and as4 :: bool
    and x :: "mrt_rib_entry \<times> nat \<times> int" and re' :: mrt_rib_entry
    and y :: "nat \<times> int" and a' :: nat and alen' :: int
  assume "attr_step re buf a alen aid' as4 = Inr x" "(re', y) = x" "(a', alen') = y"
    and pos: "0 < alen'"
  then have "attr_step re buf a alen aid' as4 = Inr (re', a', alen')" by simp
  from attr_step_alen [OF this] pos
  show "((re', buf, a', alen', aid', as4), (re, buf, a, alen, aid', as4))
        \<in> measure (\<lambda>(re, buf, a, alen, aid', as4). nat alen)"
    by simp
qed

declare mrt_extract_attr.simps [simp del]

subsection \<open>Records, peers and decoded values\<close>

text \<open>
  Modelled from the spec: the structures of mrtparser.h and mrt.h, which are not
  part of the sources at hand. The header fields hold the values the code reads
  through \<^verbatim>\<open>ntohl\<close> and \<^verbatim>\<open>ntohs\<close>. \<open>view = None\<close> is the \<^verbatim>\<open>NULL\<close> pointer; a view name
  is the allocated string with its terminating zero byte. \<open>collector_id\<close> is the
  member \<^verbatim>\<open>bgp_id\<close> of \<^verbatim>\<open>struct mrt_peer\<close>.
\<close>

record mrt_hdr =
  hdr_timestamp :: u32
  hdr_type :: u16
  hdr_subtype :: u16
  hdr_length :: u32

record mrt_peer_entry =
  addr :: bgpd_addr
  bgp_id :: u32
  asnum :: u32

record mrt_peer =
  view :: "u8 list option"
  peers :: "mrt_peer_entry list"
  collector_id :: u32
  npeers :: u16

record mrt_rib =
  entries :: "mrt_rib_entry list"
  prefix :: bgpd_addr
  seqnum :: u32
  nentries :: u16
  prefixlen :: u8
  add_path :: bool

record mrt_bgp_state =
  st_sec :: u32
  st_nsec :: u32
  st_src :: bgpd_addr
  st_dst :: bgpd_addr
  st_src_as :: u32
  st_dst_as :: u32
  old_state :: u16
  new_state :: u16

record mrt_bgp_msg =
  msg_sec :: u32
  msg_nsec :: u32
  msg_src :: bgpd_addr
  msg_dst :: bgpd_addr
  msg_src_as :: u32
  msg_dst_as :: u32
  msg_add_path :: bool
  msg_len :: u32
  msg_bytes :: "u8 list option"

definition peer_entry_zero :: mrt_peer_entry where
  "peer_entry_zero = \<lparr>addr = addr_zero, bgp_id = 0, asnum = 0\<rparr>"

text \<open>
  Modelled from the spec: the record types and subtypes of mrt.h (RFC 6396 and
  RFC 8050), the address families and the two bits of a peer's type byte.
\<close>

definition MSG_TABLE_DUMP :: u16 where "MSG_TABLE_DUMP = 12"

definition MSG_TABLE_DUMP_V2 :: u16 where "MSG_TABLE_DUMP_V2 = 13"

definition MSG_PROTOCOL_BGP4MP :: u16 where "MSG_PROTOCOL_BGP4MP = 16"

definition MSG_PROTOCOL_BGP4MP_ET :: u16 where "MSG_PROTOCOL_BGP4MP_ET = 17"

definition MRT_DUMP_AFI_IP :: u16 where "MRT_DUMP_AFI_IP = 1"

definition MRT_DUMP_AFI_IPv6 :: u16 where "MRT_DUMP_AFI_IPv6 = 2"

definition MRT_DUMP_V2_PEER_INDEX_TABLE :: u16 where "MRT_DUMP_V2_PEER_INDEX_TABLE = 1"

definition MRT_DUMP_V2_RIB_IPV4_UNICAST :: u16 where "MRT_DUMP_V2_RIB_IPV4_UNICAST = 2"

definition MRT_DUMP_V2_RIB_IPV4_MULTICAST :: u16 where "MRT_DUMP_V2_RIB_IPV4_MULTICAST = 3"

definition MRT_DUMP_V2_RIB_IPV6_UNICAST :: u16 where "MRT_DUMP_V2_RIB_IPV6_UNICAST = 4"

definition MRT_DUMP_V2_RIB_IPV6_MULTICAST :: u16 where "MRT_DUMP_V2_RIB_IPV6_MULTICAST = 5"

definition MRT_DUMP_V2_RIB_GENERIC :: u16 where "MRT_DUMP_V2_RIB_GENERIC = 6"

definition MRT_DUMP_V2_RIB_IPV4_UNICAST_ADDPATH :: u16 where
  "MRT_DUMP_V2_RIB_IPV4_UNICAST_ADDPATH = 8"

definition MRT_DUMP_V2_RIB_IPV4_MULTICAST_ADDPATH :: u16 where
  "MRT_DUMP_V2_RIB_IPV4_MULTICAST_ADDPATH = 9"

definition MRT_DUMP_V2_RIB_IPV6_UNICAST_ADDPATH :: u16 where
  "MRT_DUMP_V2_RIB_IPV6_UNICAST_ADDPATH = 10"

definition MRT_DUMP_V2_RIB_IPV6_MULTICAST_ADDPATH :: u16 where
  "MRT_DUMP_V2_RIB_IPV6_MULTICAST_ADDPATH = 11"

definition MRT_DUMP_V2_RIB_GENERIC_ADDPATH :: u16 where
  "MRT_DUMP_V2_RIB_GENERIC_ADDPATH = 12"

definition BGP4MP_STATE_CHANGE :: u16 where "BGP4MP_STATE_CHANGE = 0"

definition BGP4MP_MESSAGE :: u16 where "BGP4MP_MESSAGE = 1"

definition BGP4MP_ENTRY :: u16 where "BGP4MP_ENTRY = 2"

definition BGP4MP_MESSAGE_AS4 :: u16 where "BGP4MP_MESSAGE_AS4 = 4"

definition BGP4MP_STATE_CHANGE_AS4 :: u16 where "BGP4MP_STATE_CHANGE_AS4 = 5"

definition BGP4MP_MESSAGE_LOCAL :: u16 where "BGP4MP_MESSAGE_LOCAL = 6"

definition BGP4MP_MESSAGE_AS4_LOCAL :: u16 where "BGP4MP_MESSAGE_AS4_LOCAL = 7"

definition BGP4MP_MESSAGE_ADDPATH :: u16 where "BGP4MP_MESSAGE_ADDPATH = 8"

definition BGP4MP_MESSAGE_AS4_ADDPATH :: u16 where "BGP4MP_MESSAGE_AS4_ADDPATH = 9"

definition BGP4MP_MESSAGE_LOCAL_ADDPATH :: u16 where "BGP4MP_MESSAGE_LOCAL_ADDPATH = 10"

definition BGP4MP_MESSAGE_AS4_LOCAL_ADDPATH :: u16 where
  "BGP4MP_MESSAGE_AS4_LOCAL_ADDPATH = 11"

definition MRT_DUMP_V2_PEER_BIT_I :: u8 where "MRT_DUMP_V2_PEER_BIT_I = 1"

definition MRT_DUMP_V2_PEER_BIT_A :: u8 where "MRT_DUMP_V2_PEER_BIT_A = 2"

subsection \<open>\<^verbatim>\<open>mrt_afi2aid\<close>, \<^verbatim>\<open>mrt_extract_addr\<close>, \<^verbatim>\<open>mrt_extract_prefix\<close>\<close>

definition mrt_afi2aid :: "u16 \<Rightarrow> int \<Rightarrow> aid" where
  "mrt_afi2aid afi safi =
     (if afi = MRT_DUMP_AFI_IP then
        if safi = - 1 \<or> safi = 1 \<or> safi = 2 then AID_INET
        else if safi = 128 then AID_VPN_IPv4
        else AID_UNSPEC
      else if afi = MRT_DUMP_AFI_IPv6 then
        if safi = - 1 \<or> safi = 1 \<or> safi = 2 then AID_INET6
        else if safi = 128 then AID_VPN_IPv6
        else AID_UNSPEC
      else AID_UNSPEC)"

text \<open>
  \<^verbatim>\<open>mrt_extract_addr(msg, len, addr, aid)\<close>: the address written to \<^verbatim>\<open>*addr\<close>, which is
  zeroed first, and the return value (\<open>-1\<close> or the bytes used).
\<close>

definition mrt_extract_addr :: "u8 list \<Rightarrow> nat \<Rightarrow> u32 \<Rightarrow> aid \<Rightarrow> error + (bgpd_addr \<times> int)" where
  "mrt_extract_addr msg b len aid' =
     (case aid' of
        AID_INET \<Rightarrow>
          if len < 4 then Inr (addr_zero, - 1)
          else bindr (rd_bytes msg b 4) (\<lambda>bs.
               Inr (\<lparr>aid = aid', v = set_v4 bs (v addr_zero)\<rparr>, 4))
      | AID_INET6 \<Rightarrow>
          if len < 16 then Inr (addr_zero, - 1)
          else bindr (rd_bytes msg b 16) (\<lambda>bs. Inr (\<lparr>aid = aid', v = bs\<rparr>, 16))
      | AID_VPN_IPv4 \<Rightarrow>
          if len < 12 then Inr (addr_zero, - 1)
          else bindr (rd_bytes msg (b + 8) 4) (\<lambda>bs.
               Inr (\<lparr>aid = aid', v = set_v4 bs (v addr_zero)\<rparr>, 12))
      | AID_VPN_IPv6 \<Rightarrow>
          if len < 24 then Inr (addr_zero, - 1)
          else bindr (rd_bytes msg (b + 8) 16) (\<lambda>bs. Inr (\<lparr>aid = aid', v = bs\<rparr>, 24))
      | AID_UNSPEC \<Rightarrow> Inr (addr_zero, - 1))"

text \<open>
  The prefix decoders \<^verbatim>\<open>nlri_get_prefix\<close>, \<^verbatim>\<open>nlri_get_prefix6\<close>, \<^verbatim>\<open>nlri_get_vpn4\<close> and
  \<^verbatim>\<open>nlri_get_vpn6\<close> belong to bgpd and are a parameter here: for a family, a buffer,
  an offset and the bytes left they give the prefix, its length in bits and the value
  \<^verbatim>\<open>mrt_extract_prefix\<close> returns for them (\<open>-1\<close> or the bytes used).
\<close>

type_synonym nlri = "aid \<Rightarrow> u8 list \<Rightarrow> nat \<Rightarrow> u32 \<Rightarrow> error + (bgpd_addr \<times> u8 \<times> int)"

definition mrt_extract_prefix :: "nlri \<Rightarrow> u8 list \<Rightarrow> nat \<Rightarrow> u32 \<Rightarrow> aid \<Rightarrow>
    error + (bgpd_addr \<times> u8 \<times> int)" where
  "mrt_extract_prefix nlri m len_off len aid' =
     (case aid' of
        AID_UNSPEC \<Rightarrow> Inr (addr_zero, 0, - 1)
      | _ \<Rightarrow> nlri aid' m len_off len)"

subsection \<open>\<^verbatim>\<open>mrt_parse_v2_peer\<close>\<close>

text \<open>
  The peer entries: \<open>n\<close> is the number of entries still to read, \<open>b\<close> the offset and
  \<open>len\<close> the bytes left. The AS number is read without a test of \<open>len\<close>.
\<close>

fun v2_peer_entries :: "u8 list \<Rightarrow> nat \<Rightarrow> u32 \<Rightarrow> nat \<Rightarrow> error + mrt_peer_entry list" where
  "v2_peer_entries msg b len 0 = Inr []"
| "v2_peer_entries msg b len (Suc n) =
     (if len < 5 then Inl Reject
      else
        bindr (rd_u8 msg b) (\<lambda>type.
        bindr (rd_u32 msg (b + 1)) (\<lambda>bid.
        bindr (if type AND MRT_DUMP_V2_PEER_BIT_I \<noteq> 0
               then bindr (mrt_extract_addr msg (b + 5) (len - 5) AID_INET6) (\<lambda>(a, r).
                    if r = - 1 then Inl Reject else Inr (a, b + 5 + 16, len - 5 - 16))
               else bindr (mrt_extract_addr msg (b + 5) (len - 5) AID_INET) (\<lambda>(a, r).
                    if r = - 1 then Inl Reject else Inr (a, b + 5 + 4, len - 5 - 4)))
          (\<lambda>(a, b1, len1).
        bindr (if type AND MRT_DUMP_V2_PEER_BIT_A \<noteq> 0
               then bindr (rd_u32 msg b1) (\<lambda>as4. Inr (as4, b1 + 4, len1 - 4))
               else bindr (rd_u16 msg b1) (\<lambda>as2. Inr (ucast as2, b1 + 2, len1 - 2)))
          (\<lambda>(as4, b2, len2).
        bindr (v2_peer_entries msg b2 len2 n) (\<lambda>rest.
        Inr (\<lparr>addr = a, bgp_id = bid, asnum = as4\<rparr> # rest)))))))"

text \<open>\<^verbatim>\<open>mrt_parse_v2_peer(hdr, msg)\<close>; \<open>Inl Reject\<close> is the \<^verbatim>\<open>NULL\<close> return.\<close>

definition mrt_parse_v2_peer :: "mrt_hdr \<Rightarrow> u8 list \<Rightarrow> error + mrt_peer" where
  "mrt_parse_v2_peer hdr msg =
     (let len = hdr_length hdr in
      if len < 8 then Inl Reject
      else
        bindr (rd_u32 msg 0) (\<lambda>bid.
        bindr (rd_u16 msg 4) (\<lambda>cnt.
        let len1 = len - 6 in
        if ucast cnt > len1 then Inl Reject
        else
          bindr (if cnt \<noteq> 0
                 then bindr (rd_bytes msg 6 (unat cnt)) (\<lambda>bs. Inr (bs @ [0]))
                 else Inr [0]) (\<lambda>name.
          let b = 6 + unat cnt; len2 = len1 - ucast cnt in
          if len2 < 2 then Inl Reject
          else
            bindr (rd_u16 msg b) (\<lambda>cnt2.
            bindr (v2_peer_entries msg (b + 2) (len2 - 2) (unat cnt2)) (\<lambda>ps.
            Inr \<lparr>view = Some name, peers = ps, collector_id = bid, npeers = cnt2\<rparr>))))))"

subsection \<open>\<^verbatim>\<open>mrt_parse_state\<close> and \<^verbatim>\<open>mrt_parse_msg\<close>\<close>

text \<open>
  The common start of both: the microsecond field of an \<^verbatim>\<open>_ET\<close> record, which is
  read without a test of \<open>len\<close>, then the switch on the subtype: AS numbers of
  two bytes (\<open>as4 = Some False\<close>) or of four (\<open>Some True\<close>), the interface index and
  the address family, or \<^verbatim>\<open>errx\<close> for another subtype (\<open>None\<close>). The result is the nanoseconds
  (\<^verbatim>\<open>ntohl(usec) * 1000\<close>, a 32-bit product), the two AS numbers, the family, the
  offset and the bytes left; \<open>Inl Reject\<close> is the return of \<^verbatim>\<open>0\<close>.
\<close>

definition bgp4mp_common :: "mrt_hdr \<Rightarrow> u8 list \<Rightarrow> bool option \<Rightarrow>
    error + (u32 \<times> u32 \<times> u32 \<times> u16 \<times> nat \<times> u32)" where
  "bgp4mp_common hdr msg as4 =
     bindr (if hdr_type hdr = MSG_PROTOCOL_BGP4MP_ET
            then bindr (rd_u32 msg 0) (\<lambda>usec. Inr (usec * 1000, 4, hdr_length hdr - 4))
            else Inr (0, 0, hdr_length hdr)) (\<lambda>(nsec, b, len).
     if as4 = None then Inl BadSubtype
     else if as4 = Some False then
       if len < 8 then Inl Reject
       else
         bindr (rd_u16 msg b) (\<lambda>sas.
         bindr (rd_u16 msg (b + 2)) (\<lambda>das.
         bindr (rd_u16 msg (b + 6)) (\<lambda>afi.
         Inr (nsec, ucast sas, ucast das, afi, b + 8, len - 8))))
     else
       if len < 12 then Inl Reject
       else
         bindr (rd_u32 msg b) (\<lambda>sas.
         bindr (rd_u32 msg (b + 4)) (\<lambda>das.
         bindr (rd_u16 msg (b + 10)) (\<lambda>afi.
         Inr (nsec, sas, das, afi, b + 12, len - 12)))))"

text \<open>
  The source and destination address, both of the family \<open>aid\<close>: the two addresses,
  the offset and the bytes left behind them.
\<close>

definition src_dst_addr :: "u8 list \<Rightarrow> nat \<Rightarrow> u32 \<Rightarrow> aid \<Rightarrow>
    error + (bgpd_addr \<times> bgpd_addr \<times> nat \<times> u32)" where
  "src_dst_addr msg b len aid' =
     bindr (mrt_extract_addr msg b len aid') (\<lambda>(src, r).
     if r = - 1 then Inl Reject
     else
       let b1 = b + nat r; len1 = len - of_int r in
       bindr (mrt_extract_addr msg b1 len1 aid') (\<lambda>(dst, r1).
       if r1 = - 1 then Inl Reject
       else Inr (src, dst, b1 + nat r1, len1 - of_int r1)))"

text \<open>
  \<^verbatim>\<open>mrt_parse_state(hdr, msg, verbose)\<close>; \<open>Inl Reject\<close> is the \<^verbatim>\<open>NULL\<close> return. The two
  states are read without a test of \<open>len\<close>.
\<close>

definition mrt_parse_state :: "mrt_hdr \<Rightarrow> u8 list \<Rightarrow> error + mrt_bgp_state" where
  "mrt_parse_state hdr msg =
     (bindr (bgp4mp_common hdr msg
               (if hdr_subtype hdr = BGP4MP_STATE_CHANGE then Some False
                else if hdr_subtype hdr = BGP4MP_STATE_CHANGE_AS4 then Some True
                else None))
          (\<lambda>(nsec, sas, das, afi, b, len).
        let aid' = mrt_afi2aid afi (- 1) in
        if aid' = AID_UNSPEC then Inl Reject
        else
          bindr (src_dst_addr msg b len aid') (\<lambda>(src, dst, b1, len1).
          bindr (rd_u16 msg b1) (\<lambda>old.
          bindr (rd_u16 msg (b1 + 2)) (\<lambda>new.
          Inr \<lparr>st_sec = hdr_timestamp hdr, st_nsec = nsec, st_src = src, st_dst = dst,
               st_src_as = sas, st_dst_as = das, old_state = old, new_state = new\<rparr>)))))"

text \<open>
  \<^verbatim>\<open>mrt_parse_msg(hdr, msg, verbose)\<close>; the BGP message is what is left of the record.
\<close>

definition msg_subtype_as2 :: "u16 \<Rightarrow> bool" where
  "msg_subtype_as2 st =
     (st = BGP4MP_MESSAGE_ADDPATH \<or> st = BGP4MP_MESSAGE_LOCAL_ADDPATH \<or>
      st = BGP4MP_MESSAGE \<or> st = BGP4MP_MESSAGE_LOCAL)"

definition msg_subtype_as4 :: "u16 \<Rightarrow> bool" where
  "msg_subtype_as4 st =
     (st = BGP4MP_MESSAGE_AS4_ADDPATH \<or> st = BGP4MP_MESSAGE_AS4_LOCAL_ADDPATH \<or>
      st = BGP4MP_MESSAGE_AS4 \<or> st = BGP4MP_MESSAGE_AS4_LOCAL)"

definition msg_subtype_addpath :: "u16 \<Rightarrow> bool" where
  "msg_subtype_addpath st =
     (st = BGP4MP_MESSAGE_ADDPATH \<or> st = BGP4MP_MESSAGE_LOCAL_ADDPATH \<or>
      st = BGP4MP_MESSAGE_AS4_ADDPATH \<or> st = BGP4MP_MESSAGE_AS4_LOCAL_ADDPATH)"

definition mrt_parse_msg :: "mrt_hdr \<Rightarrow> u8 list \<Rightarrow> error + mrt_bgp_msg" where
  "mrt_parse_msg hdr msg =
     (bindr (bgp4mp_common hdr msg
               (if msg_subtype_as2 (hdr_subtype hdr) then Some False
                else if msg_subtype_as4 (hdr_subtype hdr) then Some True
                else None))
          (\<lambda>(nsec, sas, das, afi, b, len).
        let aid' = mrt_afi2aid afi (- 1) in
        if aid' = AID_UNSPEC then Inl Reject
        else
          bindr (src_dst_addr msg b len aid') (\<lambda>(src, dst, b1, len1).
          bindr (if len1 > 0
                 then bindr (rd_bytes msg b1 (unat len1)) (\<lambda>bs. Inr (len1, Some bs))
                 else Inr (0, None)) (\<lambda>(ml, mb).
          Inr \<lparr>msg_sec = hdr_timestamp hdr, msg_nsec = nsec, msg_src = src, msg_dst = dst,
               msg_src_as = sas, msg_dst_as = das,
               msg_add_path = msg_subtype_addpath (hdr_subtype hdr),
               msg_len = ml, msg_bytes = mb\<rparr>))))"

subsection \<open>The RIB decoders\<close>

text \<open>
  A failure that the RIB decoders answer with \<^verbatim>\<open>goto fail\<close>: \<open>or_fail m d f\<close> is \<open>d\<close>
  when \<open>m\<close> is a rejection, and goes on with \<open>f\<close> when \<open>m\<close> is a value.
\<close>

definition or_fail :: "error + 'a \<Rightarrow> 'b \<Rightarrow> ('a \<Rightarrow> error + 'b) \<Rightarrow> error + 'b" where
  "or_fail m d f = (case m of Inl e \<Rightarrow> (if e = Reject then Inr d else Inl e) | Inr x \<Rightarrow> f x)"

lemma or_fail_cong [fundef_cong]:
  "m = m' \<Longrightarrow> d = d' \<Longrightarrow> (\<And>x. m' = Inr x \<Longrightarrow> f x = f' x) \<Longrightarrow>
   or_fail m d f = or_fail m' d' f'"
  by (simp add: or_fail_def split: sum.splits)

text \<open>
  The entries of a \<^verbatim>\<open>TABLE_DUMP_V2\<close> RIB record: \<open>n\<close> entries still to read;
  \<open>path_id\<close> keeps its value from one entry to the next.
\<close>

fun v2_rib_entries :: "u8 list \<Rightarrow> nat \<Rightarrow> u32 \<Rightarrow> bool \<Rightarrow> aid \<Rightarrow> u32 \<Rightarrow> nat \<Rightarrow>
    error + mrt_rib_entry list" where
  "v2_rib_entries msg b len addp aid' pid 0 = Inr []"
| "v2_rib_entries msg b len addp aid' pid (Suc n) =
     (if len < 8 then Inl Reject
      else
        bindr (rd_u16 msg b) (\<lambda>pix.
        bindr (rd_u32 msg (b + 2)) (\<lambda>otm.
        bindr (if addp
               then if len - 6 < 6 then Inl Reject
                    else bindr (rd_u32 msg (b + 6)) (\<lambda>p. Inr (p, b + 10, len - 10))
               else Inr (pid, b + 6, len - 6)) (\<lambda>(pid1, b1, len1).
        bindr (rd_u16 msg b1) (\<lambda>alen.
        let b2 = b1 + 2; len2 = len1 - 2 in
        if len2 < ucast alen then Inl Reject
        else
          bindr (mrt_extract_attr
                   (entry_zero\<lparr>peer_idx := pix, originated := otm, path_id := pid1\<rparr>)
                   msg b2 (uint alen) aid' True) (\<lambda>re.
          bindr (v2_rib_entries msg (b2 + unat alen) (len2 - ucast alen) addp aid' pid1 n)
            (\<lambda>rest. Inr (re # rest))))))))"

definition v2_rib_addpath :: "u16 \<Rightarrow> bool" where
  "v2_rib_addpath st =
     (st = MRT_DUMP_V2_RIB_IPV4_UNICAST_ADDPATH \<or> st = MRT_DUMP_V2_RIB_IPV4_MULTICAST_ADDPATH \<or>
      st = MRT_DUMP_V2_RIB_IPV6_UNICAST_ADDPATH \<or> st = MRT_DUMP_V2_RIB_IPV6_MULTICAST_ADDPATH \<or>
      st = MRT_DUMP_V2_RIB_GENERIC_ADDPATH)"

text \<open>
  The switch of \<^verbatim>\<open>mrt_parse_v2_rib\<close> on the subtype: the prefix, its length, and the
  offset and bytes left behind it.
\<close>

definition v2_rib_prefix :: "nlri \<Rightarrow> u16 \<Rightarrow> u8 list \<Rightarrow> nat \<Rightarrow> u32 \<Rightarrow>
    error + (bgpd_addr \<times> u8 \<times> nat \<times> u32)" where
  "v2_rib_prefix nlri st msg b len =
     (if st = MRT_DUMP_V2_RIB_IPV4_UNICAST_ADDPATH \<or> st = MRT_DUMP_V2_RIB_IPV4_MULTICAST_ADDPATH \<or>
         st = MRT_DUMP_V2_RIB_IPV4_UNICAST \<or> st = MRT_DUMP_V2_RIB_IPV4_MULTICAST then
        bindr (mrt_extract_prefix nlri msg b len AID_INET) (\<lambda>(p, pl, ret).
        if ret = - 1 then Inl Reject else Inr (p, pl, b + nat ret, len - of_int ret))
      else if st = MRT_DUMP_V2_RIB_IPV6_UNICAST_ADDPATH \<or>
         st = MRT_DUMP_V2_RIB_IPV6_MULTICAST_ADDPATH \<or>
         st = MRT_DUMP_V2_RIB_IPV6_UNICAST \<or> st = MRT_DUMP_V2_RIB_IPV6_MULTICAST then
        bindr (mrt_extract_prefix nlri msg b len AID_INET6) (\<lambda>(p, pl, ret).
        if ret = - 1 then Inl Reject else Inr (p, pl, b + nat ret, len - of_int ret))
      else if st = MRT_DUMP_V2_RIB_GENERIC_ADDPATH \<or> st = MRT_DUMP_V2_RIB_GENERIC then
        if len < 3 then Inl Reject
        else
          bindr (rd_u16 msg b) (\<lambda>afi.
          bindr (rd_u8 msg (b + 2)) (\<lambda>safi.
          let aid' = mrt_afi2aid afi (uint safi) in
          if aid' = AID_UNSPEC then Inl Reject
          else
            bindr (mrt_extract_prefix nlri msg (b + 3) (len - 3) aid') (\<lambda>(p, pl, ret).
            if ret = - 1 then Inl Reject
            else Inr (p, pl, b + 3 + nat ret, len - 3 - of_int ret))))
      else Inl BadSubtype)"

text \<open>\<^verbatim>\<open>mrt_parse_v2_rib(hdr, msg, verbose)\<close>; \<open>Inl Reject\<close> is the \<^verbatim>\<open>NULL\<close> return.\<close>

definition mrt_parse_v2_rib :: "nlri \<Rightarrow> mrt_hdr \<Rightarrow> u8 list \<Rightarrow> error + mrt_rib" where
  "mrt_parse_v2_rib nlri hdr msg =
     (let len = hdr_length hdr in
      if len < 5 then Inl Reject
      else
        bindr (rd_u32 msg 0) (\<lambda>snum.
        bindr (v2_rib_prefix nlri (hdr_subtype hdr) msg 4 (len - 4)) (\<lambda>(p, pl, b, len1).
        if len1 < 2 then Inl Reject
        else
          bindr (rd_u16 msg b) (\<lambda>cnt.
          bindr (v2_rib_entries msg (b + 2) (len1 - 2) (v2_rib_addpath (hdr_subtype hdr))
                   (aid p) 0 (unat cnt)) (\<lambda>es.
          Inr \<lparr>entries = es, prefix = p, seqnum = snum, nentries = cnt, prefixlen = pl,
               add_path = v2_rib_addpath (hdr_subtype hdr)\<rparr>)))))"

text \<open>
  The peer context the two legacy decoders work on: the one at hand, or a new one
  with a single zeroed peer. They write to its first peer; a context without peers
  (a peer index table of no peers) has no room for that.
\<close>

definition legacy_peers :: "mrt_peer option \<Rightarrow> mrt_peer" where
  "legacy_peers pp =
     (case pp of
        None \<Rightarrow> \<lparr>view = None, peers = [peer_entry_zero], collector_id = 0, npeers = 1\<rparr>
      | Some p \<Rightarrow> p)"

definition upd_peer0 :: "(mrt_peer_entry \<Rightarrow> mrt_peer_entry) \<Rightarrow> mrt_peer \<Rightarrow> error + mrt_peer" where
  "upd_peer0 f p =
     (case peers p of
        [] \<Rightarrow> Inl OutOfBounds
      | e # es \<Rightarrow> Inr (p\<lparr>peers := f e # es\<rparr>))"

text \<open>
  \<^verbatim>\<open>mrt_extract_addr(b, len, &p->peers->addr, aid)\<close> followed by \<^verbatim>\<open>goto fail\<close> on
  \<open>-1\<close>: the context with the address written (zeroed when the call fails) and
  whether the call succeeded.
\<close>

definition peer0_addr :: "u8 list \<Rightarrow> nat \<Rightarrow> u32 \<Rightarrow> aid \<Rightarrow> mrt_peer \<Rightarrow> error + (mrt_peer \<times> bool)" where
  "peer0_addr msg b len aid' p =
     bindr (mrt_extract_addr msg b len aid') (\<lambda>(a, r).
     bindr (upd_peer0 (\<lambda>e. e\<lparr>addr := a\<rparr>) p) (\<lambda>p'. Inr (p', r \<noteq> - 1)))"

text \<open>
  \<^verbatim>\<open>mrt_parse_dump(hdr, msg, pp, rp)\<close>: the peer context left in \<^verbatim>\<open>*pp\<close> and the RIB
  record, \<open>None\<close> when the function returns \<open>-1\<close>.
\<close>

definition mrt_parse_dump :: "mrt_hdr \<Rightarrow> u8 list \<Rightarrow> mrt_peer option \<Rightarrow>
    error + (mrt_peer \<times> mrt_rib option)" where
  "mrt_parse_dump hdr msg pp =
     (let p = legacy_peers pp; len = hdr_length hdr; st = hdr_subtype hdr in
      if len < 4 then Inr (p, None)
      else
        bindr (rd_u16 msg 2) (\<lambda>snum.
        bindr (if st = MRT_DUMP_AFI_IP then
                 bindr (mrt_extract_addr msg 4 (len - 4) AID_INET) (\<lambda>(a, r).
                 Inr (a, r \<noteq> - 1, 4 + 4, len - 4 - 4))
               else if st = MRT_DUMP_AFI_IPv6 then
                 bindr (mrt_extract_addr msg 4 (len - 4) AID_INET6) (\<lambda>(a, r).
                 Inr (a, r \<noteq> - 1, 4 + 16, len - 4 - 16))
               else Inr (addr_zero, True, 4, len - 4)) (\<lambda>(pfx, ok0, b, len1).
        if \<not> ok0 then Inr (p, None)
        else if len1 < 14 then Inr (p, None)
        else
          bindr (rd_u8 msg b) (\<lambda>plen.
          bindr (rd_u32 msg (b + 2)) (\<lambda>otm.
          bindr (if st = MRT_DUMP_AFI_IP then
                   bindr (peer0_addr msg (b + 6) (len1 - 6) AID_INET p) (\<lambda>(p', ok).
                   Inr (p', ok, b + 6 + 4, len1 - 6 - 4))
                 else if st = MRT_DUMP_AFI_IPv6 then
                   bindr (peer0_addr msg (b + 6) (len1 - 6) AID_INET6 p) (\<lambda>(p', ok).
                   Inr (p', ok, b + 6 + 16, len1 - 6 - 16))
                 else Inr (p, True, b + 6, len1 - 6)) (\<lambda>(p1, ok, b1, len2).
          if \<not> ok then Inr (p1, None)
          else
            bindr (rd_u16 msg b1) (\<lambda>asn.
            bindr (upd_peer0 (\<lambda>e. e\<lparr>asnum := ucast asn\<rparr>) p1) (\<lambda>p2.
            bindr (rd_u16 msg (b1 + 2)) (\<lambda>alen.
            let b2 = b1 + 4; len3 = len2 - 4 in
            if len3 < ucast alen then Inr (p2, None)
            else
              or_fail (mrt_extract_attr (entry_zero\<lparr>originated := otm\<rparr>) msg b2
                         (uint alen) (aid pfx) False) (p2, None) (\<lambda>re.
              Inr (p2, Some \<lparr>entries = [re], prefix = pfx, seqnum = ucast snum,
                             nentries = 1, prefixlen = plen, add_path = False\<rparr>)))))))))))"

text \<open>
  \<^verbatim>\<open>mrt_parse_dump_mp(hdr, msg, pp, rp, verbose)\<close>, as \<^verbatim>\<open>mrt_parse_dump\<close>. The
  microsecond field of an \<^verbatim>\<open>_ET\<close> record is stepped over and the attribute length is
  read, both without a test of \<open>len\<close>.
\<close>

definition mrt_parse_dump_mp :: "nlri \<Rightarrow> mrt_hdr \<Rightarrow> u8 list \<Rightarrow> mrt_peer option \<Rightarrow>
    error + (mrt_peer \<times> mrt_rib option)" where
  "mrt_parse_dump_mp nlri hdr msg pp =
     (let (b0, len0) = (if hdr_type hdr = MSG_PROTOCOL_BGP4MP_ET
                        then (4, hdr_length hdr - 4) else (0, hdr_length hdr));
          p = legacy_peers pp in
      if len0 < 8 then Inr (p, None)
      else
        bindr (rd_u16 msg (b0 + 2)) (\<lambda>asn.
        bindr (upd_peer0 (\<lambda>e. e\<lparr>asnum := ucast asn\<rparr>) p) (\<lambda>p1.
        bindr (rd_u16 msg (b0 + 6)) (\<lambda>afi.
        let b = b0 + 8; len = len0 - 8 in
        bindr (if afi = MRT_DUMP_AFI_IP then
                 if len < 8 then Inr (p1, False, b, len)
                 else bindr (peer0_addr msg (b + 4) (len - 4) AID_INET p1) (\<lambda>(p', ok).
                      Inr (p', ok, b + 4 + 4, len - 4 - 4))
               else if afi = MRT_DUMP_AFI_IPv6 then
                 if len < 32 then Inr (p1, False, b, len)
                 else bindr (peer0_addr msg (b + 16) (len - 16) AID_INET6 p1) (\<lambda>(p', ok).
                      Inr (p', ok, b + 16 + 16, len - 16 - 16))
               else Inr (p1, True, b, len)) (\<lambda>(p2, ok, b1, len1).
        if \<not> ok then Inr (p2, None)
        else if len1 < 12 then Inr (p2, None)
        else
          bindr (rd_u32 msg (b1 + 4)) (\<lambda>otm.
          bindr (rd_u16 msg (b1 + 8)) (\<lambda>afi2.
          bindr (rd_u8 msg (b1 + 10)) (\<lambda>safi.
          let aid' = mrt_afi2aid afi2 (uint safi) in
          if aid' = AID_UNSPEC then Inr (p2, None)
          else
            bindr (rd_u8 msg (b1 + 11)) (\<lambda>nhlen.
            let b2 = b1 + 12; len2 = len1 - 12 in
            bindr (mrt_extract_addr msg b2 len2 aid') (\<lambda>(nh, r).
            if r = - 1 then Inr (p2, None)
            else if len2 < ucast nhlen then Inr (p2, None)
            else
              let b3 = b2 + unat nhlen; len3 = len2 - ucast nhlen in
              bindr (mrt_extract_prefix nlri msg b3 len3 aid') (\<lambda>(pfx, plen, ret).
              if ret = - 1 then Inr (p2, None)
              else
                let b4 = b3 + nat ret; len4 = len3 - of_int ret in
                bindr (rd_u16 msg b4) (\<lambda>alen.
                let b5 = b4 + 2; len5 = len4 - 2 in
                if len5 < ucast alen then Inr (p2, None)
                else
                  or_fail (mrt_extract_attr (entry_zero\<lparr>originated := otm, nexthop := nh\<rparr>)
                             msg b5 (uint alen) (aid pfx) False) (p2, None) (\<lambda>re.
                  Inr (p2, Some \<lparr>entries = [re], prefix = pfx, seqnum = 0, nentries = 1,
                                 prefixlen = plen, add_path = False\<rparr>))))))))))))))"

subsection \<open>Reading records: \<^verbatim>\<open>mrt_read_buf\<close>, \<^verbatim>\<open>mrt_read_msg\<close>\<close>

text \<open>
  The file descriptor is what \<^verbatim>\<open>read(2)\<close> will deliver, call by call: a chunk of
  bytes that is at hand (a chunk longer than the bytes asked for stays in part for
  the next call), an interrupted call (\<^verbatim>\<open>EINTR\<close>) or a failed one. The end of the
  list and an empty chunk are the end of the file.
\<close>

datatype rd_event = Data "u8 list" | EINTR | EIO

text \<open>
  \<^verbatim>\<open>mrt_read_buf(fd, buf, len)\<close>: the bytes read (the function returns their number)
  and the descriptor afterwards.
\<close>

fun mrt_read_buf :: "rd_event list \<Rightarrow> nat \<Rightarrow> error + (u8 list \<times> rd_event list)" where
  "mrt_read_buf fd 0 = Inr ([], fd)"
| "mrt_read_buf [] (Suc n) = Inr ([], [])"
| "mrt_read_buf (EINTR # fd) (Suc n) = mrt_read_buf fd (Suc n)"
| "mrt_read_buf (EIO # fd) (Suc n) = Inl ReadError"
| "mrt_read_buf (Data bs # fd) (Suc n) =
     (if bs = [] then Inr ([], fd)
      else if length bs \<le> Suc n then
        bindr (mrt_read_buf fd (Suc n - length bs)) (\<lambda>(got, fd'). Inr (bs @ got, fd'))
      else Inr (take (Suc n) bs, Data (drop (Suc n) bs) # fd))"

definition parse_hdr :: "u8 list \<Rightarrow> mrt_hdr" where
  "parse_hdr bs = \<lparr>hdr_timestamp = be_word (take 4 bs), hdr_type = be_word (take 2 (drop 4 bs)),
     hdr_subtype = be_word (take 2 (drop 6 bs)), hdr_length = be_word (take 4 (drop 8 bs))\<rparr>"

text \<open>
  \<^verbatim>\<open>mrt_read_msg(fd, hdr)\<close>: \<open>None\<close> is the \<^verbatim>\<open>NULL\<close> return; otherwise the header,
  the payload buffer of \<^verbatim>\<open>hdr->length\<close> bytes and the descriptor afterwards.
\<close>

definition mrt_read_msg :: "rd_event list \<Rightarrow>
    error + (mrt_hdr \<times> u8 list \<times> rd_event list) option" where
  "mrt_read_msg fd =
     bindr (mrt_read_buf fd 12) (\<lambda>(hb, fd1).
     if length hb \<noteq> 12 then Inr None
     else
       let hdr = parse_hdr hb in
       bindr (mrt_read_buf fd1 (unat (hdr_length hdr))) (\<lambda>(buf, fd2).
       if length buf \<noteq> unat (hdr_length hdr) then Inr None
       else Inr (Some (hdr, buf, fd2))))"

subsection \<open>\<^verbatim>\<open>mrt_parse\<close>\<close>

text \<open>
  The parser's callbacks are a parameter of the program; the model keeps whether each
  is set and records every call with its arguments.
\<close>

record mrt_parser =
  dump_set :: bool
  state_set :: bool
  message_set :: bool

datatype sink_call =
  Dump mrt_rib "mrt_peer option"
| State mrt_bgp_state
| Message mrt_bgp_msg

definition v2_rib_subtype :: "u16 \<Rightarrow> bool" where
  "v2_rib_subtype st =
     (st = MRT_DUMP_V2_RIB_IPV4_UNICAST \<or> st = MRT_DUMP_V2_RIB_IPV4_MULTICAST \<or>
      st = MRT_DUMP_V2_RIB_IPV6_UNICAST \<or> st = MRT_DUMP_V2_RIB_IPV6_MULTICAST \<or>
      st = MRT_DUMP_V2_RIB_GENERIC \<or> v2_rib_addpath st)"

text \<open>
  The body of the loop of \<^verbatim>\<open>mrt_parse\<close>, the switch on type and subtype: the calls
  of the callbacks and the peer context afterwards. The record types that are only
  reported under \<^verbatim>\<open>verbose\<close> (deprecated, unsupported, unknown) have no effect.
\<close>

definition mrt_dispatch :: "nlri \<Rightarrow> mrt_parser \<Rightarrow> mrt_hdr \<Rightarrow> u8 list \<Rightarrow> mrt_peer option \<Rightarrow>
    error + (sink_call list \<times> mrt_peer option)" where
  "mrt_dispatch nlri p h msg pctx =
     (let ty = hdr_type h; st = hdr_subtype h in
      if ty = MSG_TABLE_DUMP then
        if st = MRT_DUMP_AFI_IP \<or> st = MRT_DUMP_AFI_IPv6 then
          if \<not> dump_set p then Inr ([], pctx)
          else
            bindr (mrt_parse_dump h msg pctx) (\<lambda>(p', r).
            case r of
              None \<Rightarrow> Inr ([], Some p')
            | Some rib \<Rightarrow> Inr ([Dump rib (Some p')], Some p'))
        else Inr ([], pctx)
      else if ty = MSG_TABLE_DUMP_V2 then
        if st = MRT_DUMP_V2_PEER_INDEX_TABLE then
          if \<not> dump_set p then Inr ([], pctx)
          else or_fail (mrt_parse_v2_peer h msg) ([], None) (\<lambda>p'. Inr ([], Some p'))
        else if v2_rib_subtype st then
          if \<not> dump_set p then Inr ([], pctx)
          else or_fail (mrt_parse_v2_rib nlri h msg) ([], pctx) (\<lambda>r. Inr ([Dump r pctx], pctx))
        else Inr ([], pctx)
      else if ty = MSG_PROTOCOL_BGP4MP_ET \<or> ty = MSG_PROTOCOL_BGP4MP then
        if st = BGP4MP_STATE_CHANGE \<or> st = BGP4MP_STATE_CHANGE_AS4 then
          or_fail (mrt_parse_state h msg) ([], pctx) (\<lambda>s.
          Inr (if state_set p then [State s] else [], pctx))
        else if msg_subtype_as2 st \<or> msg_subtype_as4 st then
          or_fail (mrt_parse_msg h msg) ([], pctx) (\<lambda>m.
          Inr (if message_set p then [Message m] else [], pctx))
        else if st = BGP4MP_ENTRY then
          if \<not> dump_set p then Inr ([], pctx)
          else
            bindr (mrt_parse_dump_mp nlri h msg pctx) (\<lambda>(p', r).
            case r of
              None \<Rightarrow> Inr ([], Some p')
            | Some rib \<Rightarrow> Inr ([Dump rib (Some p')], Some p'))
        else Inr ([], pctx)
      else Inr ([], pctx))"

fun fd_size :: "rd_event list \<Rightarrow> nat" where
  "fd_size [] = 0"
| "fd_size (Data bs # fd) = Suc (length bs + fd_size fd)"
| "fd_size (EINTR # fd) = Suc (fd_size fd)"
| "fd_size (EIO # fd) = Suc (fd_size fd)"

lemma read_buf_size:
  "mrt_read_buf fd n = Inr (got, fd') \<Longrightarrow> fd_size fd' + length got \<le> fd_size fd"
proof (induction fd n arbitrary: got fd' rule: mrt_read_buf.induct)
  case (5 bs fd n)
  show ?case
  proof (cases "bs = []")
    case True
    with "5.prems" show ?thesis by simp
  next
    case False
    show ?thesis
    proof (cases "length bs \<le> Suc n")
      case True
      with False "5.prems" obtain g where
        r: "mrt_read_buf fd (Suc n - length bs) = Inr (g, fd')" and g: "got = bs @ g"
        by (auto simp: bindr_def split: sum.splits)
      from "5.IH" [OF False True r] g show ?thesis by simp
    next
      case b: False
      with False "5.prems" show ?thesis by auto
    qed
  qed
qed auto

lemma read_msg_size:
  assumes "mrt_read_msg fd = Inr (Some (h, msg, fd'))"
  shows "fd_size fd' < fd_size fd"
proof -
  from assms obtain hb fd1 where
    a: "mrt_read_buf fd 12 = Inr (hb, fd1)" and l: "length hb = 12" and
    b: "mrt_read_buf fd1 (unat (hdr_length (parse_hdr hb))) = Inr (msg, fd')"
    by (auto simp: mrt_read_msg_def bindr_def Let_def split: sum.splits if_splits)
  from read_buf_size [OF a] read_buf_size [OF b] l show ?thesis by simp
qed

text \<open>
  The loop of \<^verbatim>\<open>mrt_parse\<close>, from the peer context \<open>pctx\<close>: the calls of the callbacks
  in their order, and how the run ends: \<open>None\<close> when \<^verbatim>\<open>mrt_parse\<close> returns, the error
  when the process exits or leaves the bounds of a buffer.
\<close>

function mrt_parse_loop :: "nlri \<Rightarrow> rd_event list \<Rightarrow> mrt_parser \<Rightarrow> mrt_peer option \<Rightarrow>
    sink_call list \<times> error option" where
  "mrt_parse_loop nlri fd p pctx =
     (case mrt_read_msg fd of
        Inl e \<Rightarrow> ([], Some e)
      | Inr None \<Rightarrow> ([], None)
      | Inr (Some (h, msg, fd')) \<Rightarrow>
          (case mrt_dispatch nlri p h msg pctx of
             Inl e \<Rightarrow> ([], Some e)
           | Inr (calls, pctx') \<Rightarrow>
               (let (cs, r) = mrt_parse_loop nlri fd' p pctx' in (calls @ cs, r))))"
  by pat_completeness auto

termination
  by (relation "measure (\<lambda>(nlri, fd, p, pctx). fd_size fd)") (auto dest: read_msg_size)

declare mrt_parse_loop.simps [simp del]

text \<open>\<^verbatim>\<open>mrt_parse(fd, p, verbose)\<close>: the loop, started without a peer context.\<close>

definition mrt_parse :: "nlri \<Rightarrow> rd_event list \<Rightarrow> mrt_parser \<Rightarrow> sink_call list \<times> error option" where
  "mrt_parse nlri fd p = mrt_parse_loop nlri fd p None"

section \<open>Wire formats and specification vocabulary\<close>

subsection \<open>Integers, attribute headers, bytes in a buffer\<close>

text \<open>
  The encodings the decoders are checked against. \<open>enc_u16\<close> and \<open>enc_u32\<close> write
  an integer in network order. \<open>attr_hdr flags type l\<close> is the header of a path
  attribute that declares a payload of \<open>l\<close> bytes: the flags byte, the type byte and
  the length in one byte, or in two when the extended-length flag is set; a length of
  one byte holds \<open>l\<close> only below 256 (\<open>hdr_ok\<close>). \<open>bytes_at buf i bs\<close> says that
  the bytes \<open>bs\<close> stand in the buffer at offset \<open>i\<close>.
\<close>

definition enc_u16 :: "u16 \<Rightarrow> u8 list" where
  "enc_u16 w = [of_nat (unat w div 256), of_nat (unat w mod 256)]"

definition enc_u32 :: "u32 \<Rightarrow> u8 list" where
  "enc_u32 w = [of_nat (unat w div 16777216), of_nat (unat w div 65536 mod 256),
                of_nat (unat w div 256 mod 256), of_nat (unat w mod 256)]"

definition attr_hdr :: "u8 \<Rightarrow> u8 \<Rightarrow> u16 \<Rightarrow> u8 list" where
  "attr_hdr flags type l =
     (if flags AND MRT_ATTR_EXTLEN \<noteq> 0 then flags # type # enc_u16 l
      else [flags, type, ucast l])"

definition hdr_ok :: "u8 \<Rightarrow> u16 \<Rightarrow> bool" where
  "hdr_ok flags l = (flags AND MRT_ATTR_EXTLEN \<noteq> 0 \<or> l < 256)"

definition bytes_at :: "u8 list \<Rightarrow> nat \<Rightarrow> u8 list \<Rightarrow> bool" where
  "bytes_at buf i bs = (i + length bs \<le> length buf \<and> take (length bs) (drop i buf) = bs)"

subsection \<open>The states the attribute loop reaches\<close>

text \<open>
  \<open>attr_reaches buf aid as4 s t\<close>: started in the state \<open>s\<close> (entry, offset and
  remaining length), the loop of \<^verbatim>\<open>mrt_extract_attr\<close> is at the head of a round in
  the state \<open>t\<close>. The attributes a span contains are those at the offsets the loop
  reaches. \<open>attr_unknown\<close> holds of the attribute types that take the \<^verbatim>\<open>default\<close>
  case, \<^verbatim>\<open>MRT_ATTR_AS4PATH\<close> among them when \<open>as4\<close> is set.
\<close>

inductive attr_reaches :: "u8 list \<Rightarrow> aid \<Rightarrow> bool \<Rightarrow> mrt_rib_entry \<times> nat \<times> int \<Rightarrow>
    mrt_rib_entry \<times> nat \<times> int \<Rightarrow> bool" for buf :: "u8 list" and aid' :: aid and as4 :: bool where
  start: "attr_reaches buf aid' as4 s s"
| round: "attr_reaches buf aid' as4 s (re1, a1, alen1) \<Longrightarrow>
          attr_step re1 buf a1 alen1 aid' as4 = Inr (re2, a2, alen2) \<Longrightarrow> 0 < alen2 \<Longrightarrow>
          attr_reaches buf aid' as4 s (re2, a2, alen2)"

code_pred attr_reaches .


definition attrs_capped :: "mrt_rib_entry \<Rightarrow> bool" where
  "attrs_capped re = (nattrs re \<le> 254 \<and> length (attrs re) = nattrs re)"

subsection \<open>AS paths\<close>

text \<open>
  An AS path with 2-byte AS numbers is a sequence of segments, each a type byte, a
  count byte and count times two bytes. \<open>segments_of bs\<close> reads the byte string \<open>bs\<close>
  as such a sequence and gives the counts of its segments, or \<open>None\<close> when a segment
  overruns the string. \<open>inflated_size\<close> is the size of the same path with 4-byte AS
  numbers: the sum of \<open>2 + 4 * count\<close> over the segments.
\<close>

fun segments_of :: "u8 list \<Rightarrow> nat list option" where
  "segments_of [] = Some []"
| "segments_of [t] = None"
| "segments_of (t # c # rest) =
     (if 2 * unat c \<le> length rest
      then map_option ((#) (unat c)) (segments_of (drop (2 * unat c) rest))
      else None)"

definition inflated_size :: "nat list \<Rightarrow> nat" where
  "inflated_size ls = sum_list (map (\<lambda>l. 2 + 4 * l) ls)"

text \<open>
  Modelled from the spec: \<^verbatim>\<open>aspath_deflate\<close>, which is not part of the sources at
  hand, and the two encodings of an AS path. A path is a list of segments, each a
  type and a list of AS numbers; \<open>enc_path4\<close> writes it with 4-byte AS numbers (the
  form the entry's \<open>aspath\<close> is kept in), \<open>aspath_deflate\<close> with 2-byte AS numbers,
  each AS number cut to its low 16 bits. The count of a segment is one byte
  (\<open>aspath_wf\<close>); \<open>asns_fit16\<close> says that every AS number fits in 16 bits.
\<close>

type_synonym as_segment = "u8 \<times> u32 list"

definition enc_seg4 :: "as_segment \<Rightarrow> u8 list" where
  "enc_seg4 s = fst s # of_nat (length (snd s)) # concat (map enc_u32 (snd s))"

definition enc_seg2 :: "as_segment \<Rightarrow> u8 list" where
  "enc_seg2 s = fst s # of_nat (length (snd s)) # concat (map (\<lambda>a. enc_u16 (ucast a)) (snd s))"

definition enc_path4 :: "as_segment list \<Rightarrow> u8 list" where
  "enc_path4 x = concat (map enc_seg4 x)"

definition aspath_deflate :: "as_segment list \<Rightarrow> u8 list" where
  "aspath_deflate x = concat (map enc_seg2 x)"

definition aspath_wf :: "as_segment list \<Rightarrow> bool" where
  "aspath_wf x = list_all (\<lambda>s. length (snd s) \<le> 255) x"

definition asns_fit16 :: "as_segment list \<Rightarrow> bool" where
  "asns_fit16 x = list_all (\<lambda>s. list_all (\<lambda>a. a < 65536) (snd s)) x"

subsection \<open>The bytes of a descriptor\<close>

text \<open>
  \<open>fd_bytes fd\<close> is every byte the descriptor can deliver.
\<close>

fun fd_bytes :: "rd_event list \<Rightarrow> u8 list" where
  "fd_bytes [] = []"
| "fd_bytes (Data bs # fd) = bs @ fd_bytes fd"
| "fd_bytes (EINTR # fd) = fd_bytes fd"
| "fd_bytes (EIO # fd) = fd_bytes fd"

subsection \<open>The peer index table on the wire\<close>

text \<open>
  The wire form of a peer index table: the collector's BGP identifier, the length of
  the view name in two bytes, the view name, the number of peers in two bytes and the
  peers. A peer is a type byte, its BGP identifier, an address of 16 bytes when bit I
  of the type is set and of 4 bytes otherwise, and an AS number of 4 bytes when bit A
  is set and of 2 bytes otherwise. \<open>peer_of\<close> is the peer entry a wire peer stands
  for: an IPv4 address fills the first four of the 16 address bytes.
\<close>

record wire_peer =
  wp_type :: u8
  wp_bgp_id :: u32
  wp_addr :: "u8 list"
  wp_asn :: u32

definition peer_ipv6 :: "u8 \<Rightarrow> bool" where
  "peer_ipv6 ty = (ty AND MRT_DUMP_V2_PEER_BIT_I \<noteq> 0)"

definition peer_as4 :: "u8 \<Rightarrow> bool" where
  "peer_as4 ty = (ty AND MRT_DUMP_V2_PEER_BIT_A \<noteq> 0)"

definition wire_peer_wf :: "wire_peer \<Rightarrow> bool" where
  "wire_peer_wf wp =
     (length (wp_addr wp) = (if peer_ipv6 (wp_type wp) then 16 else 4) \<and>
      (peer_as4 (wp_type wp) \<or> wp_asn wp < 65536))"

definition enc_peer :: "wire_peer \<Rightarrow> u8 list" where
  "enc_peer wp =
     wp_type wp # enc_u32 (wp_bgp_id wp) @ wp_addr wp @
     (if peer_as4 (wp_type wp) then enc_u32 (wp_asn wp) else enc_u16 (ucast (wp_asn wp)))"

definition peer_of :: "wire_peer \<Rightarrow> mrt_peer_entry" where
  "peer_of wp =
     \<lparr>addr = (if peer_ipv6 (wp_type wp) then \<lparr>aid = AID_INET6, v = wp_addr wp\<rparr>
              else \<lparr>aid = AID_INET, v = wp_addr wp @ replicate 12 0\<rparr>),
      bgp_id = wp_bgp_id wp, asnum = wp_asn wp\<rparr>"

definition enc_peer_table :: "u32 \<Rightarrow> u8 list \<Rightarrow> wire_peer list \<Rightarrow> u8 list" where
  "enc_peer_table coll name ps =
     enc_u32 coll @ enc_u16 (of_nat (length name)) @ name @
     enc_u16 (of_nat (length ps)) @ concat (map enc_peer ps)"

section \<open>Encodings decode\<close>

lemma ucast_of_nat_u8: "k < 256 \<Longrightarrow> (ucast (of_nat k :: u8) :: 'a::len word) = of_nat k"
  by (simp add: unsigned_of_nat take_bit_nat_eq_self)

lemma be_word_enc_u16: "be_word (enc_u16 w) = w"
proof -
  have "unat w < 65536" using unsigned_less [of w, where 'a = nat] by simp
  then have "unat w div 256 < 256" by simp
  then have "(be_word (enc_u16 w) :: u16) =
      of_nat (unat w div 256) * 256 + of_nat (unat w mod 256)"
    by (simp add: be_word_def enc_u16_def ucast_of_nat_u8)
  also have "\<dots> = of_nat (unat w div 256 * 256 + unat w mod 256)"
    by (simp only: of_nat_add of_nat_mult of_nat_numeral)
  also have "\<dots> = w" by (simp only: div_mult_mod_eq of_nat_unat ucast_id)
  finally show ?thesis .
qed

lemma be_word_enc_u32: "be_word (enc_u32 w) = w"
proof -
  define n where "n = unat w"
  have "n < 4294967296" using unsigned_less [of w, where 'a = nat] by (simp add: n_def)
  then have "n div 16777216 < 256" by simp
  then have "(be_word (enc_u32 w) :: u32) =
      ((of_nat (n div 16777216) * 256 + of_nat (n div 65536 mod 256)) * 256
         + of_nat (n div 256 mod 256)) * 256 + of_nat (n mod 256)"
    by (simp add: be_word_def enc_u32_def ucast_of_nat_u8 n_def)
  also have "\<dots> = of_nat (((n div 16777216 * 256 + n div 65536 mod 256) * 256
         + n div 256 mod 256) * 256 + n mod 256)"
    by (simp only: of_nat_add of_nat_mult of_nat_numeral)
  also have "((n div 16777216 * 256 + n div 65536 mod 256) * 256
         + n div 256 mod 256) * 256 + n mod 256 = n"
  proof -
    have "n div 16777216 = n div 65536 div 256" "n div 65536 = n div 256 div 256"
      by (simp_all add: div_mult2_eq [symmetric])
    then show ?thesis by (simp only: div_mult_mod_eq)
  qed
  finally show ?thesis by (simp only: n_def of_nat_unat ucast_id)
qed

lemma bytes_at_Cons:
  "bytes_at buf i (b # bs) \<longleftrightarrow> i < length buf \<and> buf ! i = b \<and> bytes_at buf (Suc i) bs"
proof (cases "i < length buf")
  case True
  then have "drop i buf = buf ! i # drop (Suc i) buf" by (simp add: Cons_nth_drop_Suc)
  with True show ?thesis by (auto simp: bytes_at_def)
next
  case False
  then show ?thesis by (simp add: bytes_at_def)
qed

lemma bytes_at_Nil: "bytes_at buf i [] \<longleftrightarrow> i \<le> length buf"
  by (simp add: bytes_at_def)

lemma rd_bytes_at: "bytes_at buf i bs \<Longrightarrow> rd_bytes buf i (length bs) = Inr bs"
  by (auto simp: bytes_at_def rd_bytes_def)

lemma length_attr_hdr: "length (attr_hdr flags type l) = (if flags AND MRT_ATTR_EXTLEN \<noteq> 0 then 4 else 3)"
  by (simp add: attr_hdr_def enc_u16_def)

lemma ucast_ucast_u8: "l < 256 \<Longrightarrow> (ucast (ucast (l :: u16) :: u8) :: u16) = l"
  by transfer (simp add: take_bit_eq_mod)

lemma attr_header_hdr:
  assumes "bytes_at buf a (attr_hdr flags type l)" "hdr_ok flags l"
  shows "attr_header buf a alen =
     (if alen < int (length (attr_hdr flags type l)) then Inl Reject
      else Inr (type, l, a + length (attr_hdr flags type l), alen - int (length (attr_hdr flags type l))))"
proof (cases "flags AND MRT_ATTR_EXTLEN \<noteq> 0")
  case True
  with assms(1) have b: "a < length buf" "buf ! a = flags" "Suc a < length buf" "buf ! Suc a = type"
     "bytes_at buf (a + 2) (enc_u16 l)"
    by (simp_all add: attr_hdr_def bytes_at_Cons)
  have "length (enc_u16 l) = 2" by (simp add: enc_u16_def)
  with rd_bytes_at [OF b(5)] have "rd_u16 buf (a + 2) = Inr l"
    by (simp add: rd_u16_def bindr_def be_word_enc_u16)
  with True b show ?thesis
    by (auto simp: attr_header_def rd_u8_def bindr_def length_attr_hdr)
next
  case False
  with assms(1) have b: "a < length buf" "buf ! a = flags" "Suc a < length buf" "buf ! Suc a = type"
     "a + 2 < length buf" "buf ! (a + 2) = ucast l"
    by (simp_all add: attr_hdr_def bytes_at_Cons)
  from False assms(2) have "l < 256" by (simp add: hdr_ok_def)
  with False b show ?thesis
    by (auto simp: attr_header_def rd_u8_def bindr_def length_attr_hdr ucast_ucast_u8)
qed

section \<open>The attribute loop\<close>

lemma bytes_at_le: "bytes_at buf i bs \<Longrightarrow> i \<le> length buf"
  by (simp add: bytes_at_def)

lemma bytes_at_append:
  "bytes_at buf i (xs @ ys) \<longleftrightarrow> bytes_at buf i xs \<and> bytes_at buf (i + length xs) ys"
  by (induction xs arbitrary: i) (auto simp: bytes_at_Cons bytes_at_Nil dest: bytes_at_le)

lemma extract_attr_round:
  "attr_step re buf a alen aid' as4 = Inr (re2, a2, alen2) \<Longrightarrow> 0 < alen2 \<Longrightarrow>
   mrt_extract_attr re buf a alen aid' as4 = mrt_extract_attr re2 buf a2 alen2 aid' as4"
  by (subst mrt_extract_attr.simps) (simp add: bindr_def)

lemma extract_attr_last:
  "attr_step re buf a alen aid' as4 = Inr (re2, a2, alen2) \<Longrightarrow> \<not> 0 < alen2 \<Longrightarrow>
   mrt_extract_attr re buf a alen aid' as4 = Inr re2"
  by (subst mrt_extract_attr.simps) (simp add: bindr_def)

lemma extract_attr_error:
  "attr_step re buf a alen aid' as4 = Inl e \<Longrightarrow> mrt_extract_attr re buf a alen aid' as4 = Inl e"
  by (subst mrt_extract_attr.simps) (simp add: bindr_def)

lemma reaches_extract:
  "attr_reaches buf aid' as4 s t \<Longrightarrow>
   mrt_extract_attr (fst s) buf (fst (snd s)) (snd (snd s)) aid' as4 =
   mrt_extract_attr (fst t) buf (fst (snd t)) (snd (snd t)) aid' as4"
  by (induction rule: attr_reaches.induct) (simp_all add: extract_attr_round)

lemma attr_step_hdr:
  assumes "bytes_at buf a (attr_hdr flags type l)" "hdr_ok flags l"
  shows "attr_step re buf a alen aid' as4 =
     (if alen < int (length (attr_hdr flags type l)) then Inl Reject
      else bindr (attr_switch re buf a (a + length (attr_hdr flags type l))
                   (alen - int (length (attr_hdr flags type l))) l type aid' as4)
             (\<lambda>(re', a2, alen2, len2). Inr (re', a2 + unat len2, alen2 - uint len2)))"
  by (simp add: attr_step_def attr_header_hdr [OF assms] bindr_def)

lemma attr_switch_nexthop:
  "attr_switch re buf attr0 a alen l MRT_ATTR_NEXTHOP aid' as4 =
     (if l \<noteq> 4 then Inl Reject
      else if aid' \<noteq> AID_INET then Inr (re, a, alen, l)
      else bindr (rd_bytes buf a 4) (\<lambda>bs.
             Inr (re\<lparr>nexthop := \<lparr>aid = AID_INET, v = set_v4 bs (v (nexthop re))\<rparr>\<rparr>, a, alen, l)))"
  by (simp add: attr_switch_def MRT_ATTR_NEXTHOP_def MRT_ATTR_ORIGIN_def MRT_ATTR_ASPATH_def)

text \<open>
  The \<^verbatim>\<open>NEXT_HOP\<close> case tests the length before the family. On every span on which
  the loop arrives at a \<^verbatim>\<open>NEXT_HOP\<close> attribute (type 3) whose declared length is not 4,
  \<^verbatim>\<open>mrt_extract_attr\<close> returns \<^verbatim>\<open>-1\<close> whatever the address family of the record is.
  A \<^verbatim>\<open>NEXT_HOP\<close> of length 4 in a record that is not IPv4 is stepped over: the entry
  is left as it was, and the loop goes on behind the four payload bytes. The spans
  on which the loop does not arrive at the attribute are the subject of
  \<open>Attribute lengths that are not checked\<close> below.
\<close>

lemma nexthop_length_checked_first:
  assumes reach: "attr_reaches buf aid' as4 (re, a, alen) (re1, a1, alen1)"
    and hdr: "bytes_at buf a1 (attr_hdr flags MRT_ATTR_NEXTHOP l)" "hdr_ok flags l"
  shows "(l \<noteq> 4 \<longrightarrow> mrt_extract_attr re buf a alen aid' as4 = Inl Reject) \<and>
         (l = 4 \<and> aid' \<noteq> AID_INET \<and> int (length (attr_hdr flags MRT_ATTR_NEXTHOP l)) \<le> alen1 \<longrightarrow>
            attr_step re1 buf a1 alen1 aid' as4 =
              Inr (re1, a1 + length (attr_hdr flags MRT_ATTR_NEXTHOP l) + 4,
                   alen1 - int (length (attr_hdr flags MRT_ATTR_NEXTHOP l)) - 4))"
proof (intro conjI impI)
  assume "l \<noteq> 4"
  then have "attr_step re1 buf a1 alen1 aid' as4 = Inl Reject"
    by (simp add: attr_step_hdr [OF hdr] attr_switch_nexthop bindr_def)
  then have "mrt_extract_attr re1 buf a1 alen1 aid' as4 = Inl Reject"
    by (rule extract_attr_error)
  with reaches_extract [OF reach] show "mrt_extract_attr re buf a alen aid' as4 = Inl Reject"
    by simp
next
  assume "l = 4 \<and> aid' \<noteq> AID_INET \<and> int (length (attr_hdr flags MRT_ATTR_NEXTHOP l)) \<le> alen1"
  then show "attr_step re1 buf a1 alen1 aid' as4 =
      Inr (re1, a1 + length (attr_hdr flags MRT_ATTR_NEXTHOP l) + 4,
           alen1 - int (length (attr_hdr flags MRT_ATTR_NEXTHOP l)) - 4)"
    by (clarsimp simp: attr_step_hdr [OF hdr] attr_switch_nexthop bindr_def)
qed

lemma nexthop_length_checked_first_example:
  "mrt_extract_attr entry_zero [64, 1, 1, 0, 64, 3, 5, 1, 2, 3, 4, 5] 0 12 AID_INET6 False
     = Inl Reject \<and>
   attr_step entry_zero [64, 3, 4, 1, 2, 3, 4] 0 7 AID_INET6 False = Inr (entry_zero, 7, 0)"
proof
  let ?buf = "[64, 1, 1, 0, 64, 3, 5, 1, 2, 3, 4, 5] :: u8 list"
  have "attr_step entry_zero ?buf 0 12 AID_INET6 False = Inr (entry_zero\<lparr>origin := 0\<rparr>, 4, 8)"
    by (simp add: attr_step_def attr_header_def attr_switch_def rd_u8_def bindr_def
        MRT_ATTR_EXTLEN_def MRT_ATTR_ORIGIN_def)
  then have r: "attr_reaches ?buf AID_INET6 False (entry_zero, 0, 12)
      (entry_zero\<lparr>origin := 0\<rparr>, 4, 8)"
    by (rule attr_reaches.round [OF attr_reaches.start]) simp
  have h: "bytes_at ?buf 4 (attr_hdr 64 MRT_ATTR_NEXTHOP 5)" "hdr_ok 64 5"
    by (simp_all add: bytes_at_def attr_hdr_def hdr_ok_def MRT_ATTR_EXTLEN_def
        MRT_ATTR_NEXTHOP_def)
  from nexthop_length_checked_first [OF r h]
  show "mrt_extract_attr entry_zero ?buf 0 12 AID_INET6 False = Inl Reject" by simp
next
  let ?buf = "[64, 3, 4, 1, 2, 3, 4] :: u8 list"
  have r: "attr_reaches ?buf AID_INET6 False (entry_zero, 0, 7) (entry_zero, 0, 7)"
    by (rule attr_reaches.start)
  have h: "bytes_at ?buf 0 (attr_hdr 64 MRT_ATTR_NEXTHOP 4)" "hdr_ok 64 4"
    by (simp_all add: bytes_at_def attr_hdr_def hdr_ok_def MRT_ATTR_EXTLEN_def
        MRT_ATTR_NEXTHOP_def)
  from nexthop_length_checked_first [OF r h]
  show "attr_step entry_zero ?buf 0 7 AID_INET6 False = Inr (entry_zero, 7, 0)"
    by (simp add: attr_hdr_def MRT_ATTR_EXTLEN_def)
qed

lemma attr_default_capped:
  "attr_default re buf attr0 a l = Inr re' \<Longrightarrow> attrs_capped re \<Longrightarrow> attrs_capped re'"
  by (auto simp: attr_default_def attrs_capped_def bindr_def Let_def split: if_splits sum.splits)

lemma attr_mp_reach_capped:
  "attr_mp_reach re buf a alen l aid' = Inr (re', a2, alen2, len2) \<Longrightarrow> attrs_capped re \<Longrightarrow>
   attrs_capped re'"
  by (auto simp: attr_mp_reach_def attrs_capped_def bindr_def Let_def
      split: if_splits sum.splits aid.splits prod.splits)

lemma attr_switch_capped:
  "attr_switch re buf attr0 a alen l type aid' as4 = Inr (re', a2, alen2, len2) \<Longrightarrow>
   attrs_capped re \<Longrightarrow> attrs_capped re'"
  unfolding attr_switch_def
  by (auto simp: bindr_def attrs_capped_def
      dest: attr_default_capped [unfolded attrs_capped_def]
            attr_mp_reach_capped [unfolded attrs_capped_def]
      split: if_splits sum.splits prod.splits)

lemma attr_step_capped:
  "attr_step re buf a alen aid' as4 = Inr (re', a', alen') \<Longrightarrow> attrs_capped re \<Longrightarrow>
   attrs_capped re'"
  by (auto simp: attr_step_def bindr_def dest: attr_switch_capped
      split: sum.splits prod.splits)


lemma reaches_capped:
  "attr_reaches buf aid' as4 s t \<Longrightarrow> attrs_capped (fst s) \<Longrightarrow> attrs_capped (fst t)"
  by (induction rule: attr_reaches.induct) (auto dest: attr_step_capped)



lemma attr_switch_as4path:
  "attr_switch re buf attr0 a alen l MRT_ATTR_AS4PATH aid' as4 =
     (if \<not> as4 then
        bindr (rd_bytes buf a (unat l)) (\<lambda>bs.
        Inr (re\<lparr>aspath_len := l, aspath := Some bs\<rparr>, a, alen, l))
      else bindr (attr_default re buf attr0 a l) (\<lambda>re'. Inr (re', a, alen, l)))"
  by (simp add: attr_switch_def MRT_ATTR_AS4PATH_def MRT_ATTR_ORIGIN_def MRT_ATTR_ASPATH_def
      MRT_ATTR_NEXTHOP_def MRT_ATTR_MED_def MRT_ATTR_LOCALPREF_def MRT_ATTR_MP_REACH_NLRI_def)

text \<open>
  One round of the loop at an \<^verbatim>\<open>AS4_PATH\<close> attribute (type 17) that stands
  in the buffer with its payload. With \<open>as4\<close> false, the entry's \<open>aspath\<close> becomes
  a copy of the payload and \<open>aspath_len\<close> the declared length, whatever \<open>aspath\<close>
  held before (the old buffer is freed; the entry owns its \<open>aspath\<close>, so the old
  value is gone with the update). With \<open>as4\<close> true, the whole attribute (flags,
  type, length field and payload) is appended to the extra attributes, as for any
  unknown attribute, the cap of 254 included.
\<close>

lemma as4path_handling:
  assumes tlv: "bytes_at buf a (attr_hdr flags MRT_ATTR_AS4PATH l @ payload)"
    and ok: "hdr_ok flags l" and len: "length payload = unat l"
    and span: "int (length (attr_hdr flags MRT_ATTR_AS4PATH l)) \<le> alen"
  shows "attr_step re buf a alen aid' as4 =
     (if \<not> as4 then
        Inr (re\<lparr>aspath_len := l, aspath := Some payload\<rparr>,
             a + length (attr_hdr flags MRT_ATTR_AS4PATH l) + unat l,
             alen - int (length (attr_hdr flags MRT_ATTR_AS4PATH l)) - uint l)
      else if nattrs re + 1 \<ge> 255 then Inl TooManyAttrs
      else
        Inr (re\<lparr>nattrs := nattrs re + 1,
                attrs := attrs re @
                  [\<lparr>attr = attr_hdr flags MRT_ATTR_AS4PATH l @ payload,
                    attr_len = length (attr_hdr flags MRT_ATTR_AS4PATH l) + unat l\<rparr>]\<rparr>,
             a + length (attr_hdr flags MRT_ATTR_AS4PATH l) + unat l,
             alen - int (length (attr_hdr flags MRT_ATTR_AS4PATH l)) - uint l))"
proof -
  let ?h = "attr_hdr flags MRT_ATTR_AS4PATH l"
  from tlv have h: "bytes_at buf a ?h" and p: "bytes_at buf (a + length ?h) payload"
    by (simp_all add: bytes_at_append)
  have rp: "rd_bytes buf (a + length ?h) (unat l) = Inr payload"
    using rd_bytes_at [OF p] len by simp
  have rw: "rd_bytes buf a (length ?h + unat l) = Inr (?h @ payload)"
    using rd_bytes_at [OF tlv] len by simp
  show ?thesis
    using span rp rw
    by (simp add: attr_step_hdr [OF h ok] attr_switch_as4path attr_default_def bindr_def
        Let_def)
qed

text \<open>
  The same for the whole loop: when \<^verbatim>\<open>mrt_extract_attr\<close> arrives at such an
  attribute with \<open>as4\<close> false, it goes on from the entry whose \<open>aspath\<close> is the copy
  of the payload, and returns that entry when the attribute is the last of the span.
\<close>

lemma as4path_in_loop:
  assumes reach: "attr_reaches buf aid' as4 (re, a, alen) (re1, a1, alen1)"
    and tlv: "bytes_at buf a1 (attr_hdr flags MRT_ATTR_AS4PATH l @ payload)"
    and ok: "hdr_ok flags l" and len: "length payload = unat l"
    and span: "int (length (attr_hdr flags MRT_ATTR_AS4PATH l)) \<le> alen1"
    and nas4: "\<not> as4"
  shows "mrt_extract_attr re buf a alen aid' as4 =
     (if 0 < alen1 - int (length (attr_hdr flags MRT_ATTR_AS4PATH l)) - uint l
      then mrt_extract_attr (re1\<lparr>aspath_len := l, aspath := Some payload\<rparr>) buf
             (a1 + length (attr_hdr flags MRT_ATTR_AS4PATH l) + unat l)
             (alen1 - int (length (attr_hdr flags MRT_ATTR_AS4PATH l)) - uint l) aid' as4
      else Inr (re1\<lparr>aspath_len := l, aspath := Some payload\<rparr>))"
proof -
  have st: "attr_step re1 buf a1 alen1 aid' as4 =
      Inr (re1\<lparr>aspath_len := l, aspath := Some payload\<rparr>,
           a1 + length (attr_hdr flags MRT_ATTR_AS4PATH l) + unat l,
           alen1 - int (length (attr_hdr flags MRT_ATTR_AS4PATH l)) - uint l)"
    using as4path_handling [OF tlv ok len span, of re1 aid' as4] nas4 by simp
  have "mrt_extract_attr re buf a alen aid' as4 = mrt_extract_attr re1 buf a1 alen1 aid' as4"
    using reaches_extract [OF reach] by simp
  then show ?thesis
    using extract_attr_round [OF st] extract_attr_last [OF st] by simp
qed

lemma length_concat_replicate: "length (concat (replicate k t)) = k * length t"
  by (simp add: length_concat sum_list_replicate)





lemma as4path_handling_example:
  "attr_step entry_zero [192, 17, 6, 2, 1, 0, 1, 0, 0] 0 9 AID_INET False
     = Inr (entry_zero\<lparr>aspath_len := 6, aspath := Some [2, 1, 0, 1, 0, 0]\<rparr>, 9, 0) \<and>
   attr_step entry_zero [192, 17, 6, 2, 1, 0, 1, 0, 0] 0 9 AID_INET True
     = Inr (entry_zero\<lparr>nattrs := 1,
              attrs := [\<lparr>attr = [192, 17, 6, 2, 1, 0, 1, 0, 0], attr_len = 9\<rparr>]\<rparr>, 9, 0)"
proof -
  let ?buf = "[192, 17, 6, 2, 1, 0, 1, 0, 0] :: u8 list"
  have hd: "attr_hdr 192 MRT_ATTR_AS4PATH 6 = [192, 17, 6]" "hdr_ok 192 6"
    by (simp_all add: attr_hdr_def hdr_ok_def MRT_ATTR_EXTLEN_def MRT_ATTR_AS4PATH_def)
  have b: "bytes_at ?buf 0 (attr_hdr 192 MRT_ATTR_AS4PATH 6 @ [2, 1, 0, 1, 0, 0])"
    by (simp add: hd bytes_at_def)
  have l: "length ([2, 1, 0, 1, 0, 0] :: u8 list) = unat (6 :: u16)"
    "int (length (attr_hdr 192 MRT_ATTR_AS4PATH 6)) \<le> 9"
    by (simp_all add: hd)
  from as4path_handling [OF b hd(2) l, of entry_zero AID_INET False]
    as4path_handling [OF b hd(2) l, of entry_zero AID_INET True]
  show ?thesis by (simp add: hd entry_zero_def)
qed

section \<open>AS path inflation\<close>

lemma unat_out_size: "unat (2 + 4 * ucast (x :: u8) :: u16) = 2 + 4 * unat x"
  using unat_u8_less [of x] by (simp add: unat_word_ariths unat_ucast_u8_u16)

lemma span_split:
  assumes "2 \<le> n" "seg + n \<le> length buf"
  shows "take n (drop seg buf) = buf ! seg # buf ! (seg + 1) # take (n - 2) (drop (seg + 2) buf)"
proof -
  from assms have "seg < length buf" "Suc seg < length buf" by simp_all
  then have "drop seg buf = buf ! seg # buf ! Suc seg # drop (Suc (Suc seg)) buf"
    by (simp add: Cons_nth_drop_Suc)
  moreover from assms have "n = Suc (Suc (n - 2))" by simp
  ultimately show ?thesis by (metis add_2_eq_Suc' Suc_eq_plus1 take_Suc_Cons)
qed

lemma of_nat_out_size: "(of_nat (2 + 4 * unat (c :: u8)) :: u16) = 2 + 4 * ucast c"
  by (simp add: of_nat_unat)

lemma nlen_round:
  assumes pos: "0 < (olen :: u16)" and rd: "rd_u8 buf (seg + 1) = Inr c"
    and le: "\<not> olen < 2 + 2 * ucast c" and inb: "seg + unat olen \<le> length buf"
  shows "take (unat olen) (drop seg buf) =
           buf ! seg # c # take (unat olen - 2) (drop (seg + 2) buf)"
    and "2 * unat c \<le> length (take (unat olen - 2) (drop (seg + 2) buf))"
    and "drop (2 * unat c) (take (unat olen - 2) (drop (seg + 2) buf)) =
           take (unat (olen - (2 + 2 * ucast c))) (drop (seg + unat (2 + 2 * ucast c :: u16)) buf)"
    and "seg + unat (2 + 2 * ucast c :: u16) + unat (olen - (2 + 2 * ucast c)) \<le> length buf"
proof -
  let ?sz = "2 + 2 * ucast c :: u16"
  have sz: "unat ?sz = 2 + 2 * unat c" by (rule unat_seg_size)
  from le have szle: "unat ?sz \<le> unat olen" by (simp add: word_le_nat_alt not_less)
  then have sub: "unat (olen - ?sz) = unat olen - unat ?sz"
    by (simp only: unat_sub_if' if_True)
  from rd have c: "buf ! (seg + 1) = c" by (simp add: rd_u8_def split: if_splits)
  from szle sz have two: "2 \<le> unat olen" by simp
  from span_split [OF two inb] c
  show "take (unat olen) (drop seg buf) =
      buf ! seg # c # take (unat olen - 2) (drop (seg + 2) buf)" by simp
  from szle sz inb show "2 * unat c \<le> length (take (unat olen - 2) (drop (seg + 2) buf))"
    by simp
  have "drop (2 * unat c) (take (unat olen - 2) (drop (seg + 2) buf)) =
      take (unat olen - 2 - 2 * unat c) (drop (2 * unat c) (drop (seg + 2) buf))"
    by (simp add: drop_take)
  also have "\<dots> = take (unat olen - unat ?sz) (drop (seg + unat ?sz) buf)"
    by (simp add: sz add.commute add.left_commute)
  finally show "drop (2 * unat c) (take (unat olen - 2) (drop (seg + 2) buf)) =
      take (unat (olen - ?sz)) (drop (seg + unat ?sz) buf)"
    by (simp only: sub)
  from szle inb show "seg + unat ?sz + unat (olen - ?sz) \<le> length buf"
    by (simp only: sub)
qed

lemma nlen_accepted:
  "aspath_nlen buf seg olen acc = Inr n \<Longrightarrow> seg + unat olen \<le> length buf \<Longrightarrow>
   \<exists>ls. segments_of (take (unat olen) (drop seg buf)) = Some ls \<and>
        n = acc + of_nat (inflated_size ls)"
proof (induction buf seg olen acc rule: aspath_nlen.induct)
  case (1 buf seg olen nlen)
  show ?case
  proof (cases "0 < olen")
    case False
    then have "olen = 0" by (simp add: word_gt_0)
    with "1.prems"(1) show ?thesis
      by (subst (asm) aspath_nlen.simps) (simp add: inflated_size_def)
  next
    case True
    from "1.prems"(1) True obtain c where rd: "rd_u8 buf (seg + 1) = Inr c"
      and le: "\<not> olen < 2 + 2 * ucast c"
      and rec: "aspath_nlen buf (seg + unat (2 + 2 * ucast c :: u16)) (olen - (2 + 2 * ucast c))
                  (nlen + (2 + 4 * ucast c)) = Inr n"
      by (subst (asm) aspath_nlen.simps)
         (auto simp: bindr_def Let_def split: sum.splits if_splits)
    note r = nlen_round [OF True rd le "1.prems"(2)]
    from "1.IH" [OF True rd refl refl le rec r(4)] obtain ls where
      ls: "segments_of (take (unat (olen - (2 + 2 * ucast c)))
             (drop (seg + unat (2 + 2 * ucast c :: u16)) buf)) = Some ls"
      and n: "n = nlen + (2 + 4 * ucast c) + of_nat (inflated_size ls)"
      by blast
    have "segments_of (take (unat olen) (drop seg buf)) = Some (unat c # ls)"
      using r(2) by (simp only: r(1) segments_of.simps r(3) ls) simp
    moreover have "n = nlen + of_nat (inflated_size (unat c # ls))"
      by (simp add: n inflated_size_def of_nat_unat)
    ultimately show ?thesis by blast
  qed
qed

lemma nlen_of_segments:
  "segments_of (take (unat olen) (drop seg buf)) = Some ls \<Longrightarrow>
   seg + unat olen \<le> length buf \<Longrightarrow>
   aspath_nlen buf seg olen acc = Inr (acc + of_nat (inflated_size ls))"
proof (induction buf seg olen acc arbitrary: ls rule: aspath_nlen.induct)
  case (1 buf seg olen nlen)
  show ?case
  proof (cases "0 < olen")
    case False
    then have "olen = 0" by (simp add: word_gt_0)
    with "1.prems"(1) show ?thesis
      by (subst aspath_nlen.simps) (simp add: inflated_size_def)
  next
    case True
    then have pos: "0 < unat olen" by (simp add: word_less_nat_alt)
    have two: "2 \<le> unat olen"
    proof (rule ccontr)
      assume "\<not> 2 \<le> unat olen"
      with pos have "unat olen = 1" by simp
      with "1.prems" have "take (unat olen) (drop seg buf) = [buf ! seg]"
        by (simp add: take_Suc_conv_app_nth [of 0] hd_drop_conv_nth take_Suc)
      with "1.prems"(1) show False by simp
    qed
    with "1.prems"(2) have inb: "seg + 1 < length buf" by simp
    define c where "c = buf ! (seg + 1)"
    from inb have rd: "rd_u8 buf (seg + 1) = Inr c" by (simp add: rd_u8_def c_def)
    have sp: "take (unat olen) (drop seg buf) =
        buf ! seg # c # take (unat olen - 2) (drop (seg + 2) buf)"
      using span_split [OF two "1.prems"(2)] by (simp add: c_def)
    from "1.prems"(1) have fit: "2 * unat c \<le> unat olen - 2"
      using "1.prems"(2) by (simp add: sp split: if_splits)
    have sz: "unat (2 + 2 * ucast c :: u16) = 2 + 2 * unat c" by (rule unat_seg_size)
    from fit two have le: "\<not> olen < 2 + 2 * ucast c"
      by (simp add: word_less_nat_alt sz)
    note r = nlen_round [OF True rd le "1.prems"(2)]
    from "1.prems"(1) obtain ls' where ls': "ls = unat c # ls'"
      and rest: "segments_of (take (unat (olen - (2 + 2 * ucast c)))
             (drop (seg + unat (2 + 2 * ucast c :: u16)) buf)) = Some ls'"
      using r(2) by (simp only: r(1) segments_of.simps r(3)) (auto split: if_splits)
    from "1.IH" [OF True rd refl refl le rest r(4)]
    have "aspath_nlen buf (seg + unat (2 + 2 * ucast c :: u16)) (olen - (2 + 2 * ucast c))
        (nlen + (2 + 4 * ucast c)) = Inr (nlen + (2 + 4 * ucast c) + of_nat (inflated_size ls'))" .
    with True rd le show ?thesis
      by (subst aspath_nlen.simps)
         (simp add: bindr_def Let_def ls' inflated_size_def of_nat_unat)
  qed
qed

text \<open>
  Claim C9. When the first loop of \<^verbatim>\<open>mrt_aspath_inflate\<close> accepts an input that
  lies in the buffer, the input is a sequence of segments and the value stored in
  \<^verbatim>\<open>*newlen\<close> is the sum of \<open>2 + 4 * seg_len\<close> over them, reduced modulo \<open>2^16\<close>;
  when the sum exceeds 65535 the stored length is smaller than the sum. Whenever
  \<^verbatim>\<open>mrt_aspath_inflate\<close> returns a buffer, it reports this value.
\<close>

theorem inflate_newlen_wraps:
  assumes acc: "aspath_nlen buf data len 0 = Inr newlen"
    and inb: "data + unat len \<le> length buf"
  shows "\<exists>ls. segments_of (take (unat len) (drop data buf)) = Some ls \<and>
           unat newlen = inflated_size ls mod 65536 \<and>
           (65535 < inflated_size ls \<longrightarrow> unat newlen < inflated_size ls) \<and>
           (\<forall>ndata nl. mrt_aspath_inflate buf data len = Inr (ndata, nl) \<longrightarrow> nl = newlen)"
proof -
  from nlen_accepted [OF acc inb] obtain ls where
    ls: "segments_of (take (unat len) (drop data buf)) = Some ls"
    and n: "newlen = of_nat (inflated_size ls)" by auto
  have m: "unat newlen = inflated_size ls mod 65536" by (simp add: n unat_of_nat)
  have "inflated_size ls mod 65536 < 65536" by simp
  then have w: "65535 < inflated_size ls \<longrightarrow> unat newlen < inflated_size ls"
    by (simp only: m) linarith
  have "\<forall>ndata nl. mrt_aspath_inflate buf data len = Inr (ndata, nl) \<longrightarrow> nl = newlen"
    by (auto simp: mrt_aspath_inflate_def acc bindr_def split: sum.splits)
  with ls m w show ?thesis by blast
qed

lemma segments_of_replicate:
  "length bs = 2 * unat c \<Longrightarrow>
   segments_of (concat (replicate k (t # c # bs))) = Some (replicate k (unat c))"
  by (induction k) simp_all

lemma inflated_size_replicate: "inflated_size (replicate k l) = k * (2 + 4 * l)"
  by (simp add: inflated_size_def sum_list_replicate)

lemma length_seg_replicate:
  "length (concat (replicate k (t # c # bs))) = k * (2 + length bs)"
  by (simp add: length_concat_replicate)

theorem inflate_newlen_wraps_witness:
  "aspath_nlen (concat (replicate 65 (2 # 255 # replicate 510 0))) 0 33280 0 = Inr 894 \<and>
   (\<exists>ls. segments_of (concat (replicate 65 (2 # 255 # replicate 510 0))) = Some ls \<and>
      inflated_size ls = 66430 \<and> unat (894 :: u16) = inflated_size ls mod 65536 \<and>
      unat (894 :: u16) < inflated_size ls)"
proof -
  define B :: "u8 list" where "B = concat (replicate 65 (2 # 255 # replicate 510 0))"
  have lenB: "length B = 33280" by (simp add: B_def length_seg_replicate)
  have u: "unat (33280 :: u16) = 33280" by simp
  have tk: "take (unat (33280 :: u16)) (drop 0 B) = B" by (simp add: lenB)
  have sg: "segments_of B = Some (replicate 65 255)"
    using segments_of_replicate [of "replicate 510 0" 255 65 2] by (simp add: B_def)
  have sz: "inflated_size (replicate 65 255) = 66430" by (simp add: inflated_size_replicate)
  have inb: "0 + unat (33280 :: u16) \<le> length B" by (simp add: lenB)
  have "aspath_nlen B 0 33280 0 = Inr (0 + of_nat (inflated_size (replicate 65 255)))"
    by (rule nlen_of_segments) (simp_all only: tk sg inb)
  then have acc: "aspath_nlen B 0 33280 0 = Inr 894" by (simp add: sz)
  from inflate_newlen_wraps [OF acc inb] obtain ls where
    "segments_of (take (unat (33280 :: u16)) (drop 0 B)) = Some ls"
    "unat (894 :: u16) = inflated_size ls mod 65536"
    "65535 < inflated_size ls \<longrightarrow> unat (894 :: u16) < inflated_size ls"
    by blast
  with sg sz tk have "segments_of B = Some ls \<and> inflated_size ls = 66430 \<and>
      unat (894 :: u16) = inflated_size ls mod 65536 \<and> unat (894 :: u16) < inflated_size ls"
    by auto
  with acc show ?thesis unfolding B_def by blast
qed

subsection \<open>Deflation and the round trip\<close>

lemma enc_u32_fit16:
  assumes "(a :: u32) < 65536"
  shows "enc_u32 a = 0 # 0 # enc_u16 (ucast a)"
proof -
  from assms have lt: "unat a < 65536" by (simp add: word_less_nat_alt)
  then have u: "unat (ucast a :: u16) = unat a"
    by (simp add: unsigned_ucast_eq take_bit_nat_eq_self)
  from lt have "unat a div 16777216 = 0" "unat a div 65536 = 0" "unat a div 256 < 256"
    by simp_all
  then show ?thesis by (simp add: enc_u32_def enc_u16_def u)
qed

lemma length_enc_u16 [simp]: "length (enc_u16 w) = 2"
  by (simp add: enc_u16_def)

lemma length_enc_u32 [simp]: "length (enc_u32 w) = 4"
  by (simp add: enc_u32_def)

lemma length_concat_enc_u16: "length (concat (map (\<lambda>a. enc_u16 (f a)) as)) = 2 * length as"
  by (induction as) simp_all

lemma length_concat_enc_u32: "length (concat (map enc_u32 as)) = 4 * length as"
  by (induction as) simp_all

lemma inflate_asns_enc:
  "list_all (\<lambda>a. a < 65536) as \<Longrightarrow>
   bytes_at buf seg (concat (map (\<lambda>a. enc_u16 (ucast a)) as)) \<Longrightarrow>
   inflate_asns buf seg (length as) = Inr (concat (map enc_u32 as))"
proof (induction as arbitrary: seg)
  case Nil
  then show ?case by simp
next
  case (Cons a as)
  from Cons.prems(2) have h: "bytes_at buf seg (enc_u16 (ucast a))"
    and r: "bytes_at buf (seg + 2) (concat (map (\<lambda>a. enc_u16 (ucast a)) as))"
    by (simp_all add: bytes_at_append)
  from h have "rd_u8 buf seg = Inr (hd (enc_u16 (ucast a)))"
    "rd_u8 buf (seg + 1) = Inr (hd (tl (enc_u16 (ucast a))))"
    by (simp_all add: enc_u16_def bytes_at_Cons rd_u8_def)
  moreover from Cons.prems(1) have "a < 65536" "list_all (\<lambda>a. a < 65536) as" by simp_all
  moreover note Cons.IH [OF \<open>list_all (\<lambda>a. a < 65536) as\<close> r]
  ultimately show ?case
    by (simp add: bindr_def enc_u32_fit16) (simp add: enc_u16_def)
qed

lemma unat_count: "n \<le> 255 \<Longrightarrow> unat (of_nat n :: u8) = n"
  by (simp add: unat_of_nat)

lemma length_enc_seg2: "length (enc_seg2 s) = 2 + 2 * length (snd s)"
  by (simp add: enc_seg2_def length_concat_enc_u16)

lemma length_enc_seg4: "length (enc_seg4 s) = 2 + 4 * length (snd s)"
  by (simp add: enc_seg4_def length_concat_enc_u32)

lemma copy_deflated:
  "aspath_wf x \<Longrightarrow> asns_fit16 x \<Longrightarrow> bytes_at buf seg (aspath_deflate x) \<Longrightarrow>
   length out + length (enc_path4 x) = nlen \<Longrightarrow>
   aspath_copy buf seg nlen out = Inr (out @ enc_path4 x)"
proof (induction x arbitrary: seg out)
  case Nil
  then show ?case by (subst aspath_copy.simps) (simp add: enc_path4_def)
next
  case (Cons s x)
  let ?c = "of_nat (length (snd s)) :: u8"
  from Cons.prems(1) have cnt: "length (snd s) \<le> 255" and wf: "aspath_wf x"
    by (simp_all add: aspath_wf_def)
  from Cons.prems(2) have fit: "list_all (\<lambda>a. a < 65536) (snd s)" and fits: "asns_fit16 x"
    by (simp_all add: asns_fit16_def)
  have uc: "unat ?c = length (snd s)" using cnt by (rule unat_count)
  from Cons.prems(3) have b: "bytes_at buf seg (enc_seg2 s)"
    and r: "bytes_at buf (seg + length (enc_seg2 s)) (aspath_deflate x)"
    by (simp_all add: aspath_deflate_def bytes_at_append)
  from b have rd: "rd_u8 buf seg = Inr (fst s)" "rd_u8 buf (seg + 1) = Inr ?c"
    and asn: "bytes_at buf (seg + 2) (concat (map (\<lambda>a. enc_u16 (ucast a)) (snd s)))"
    by (simp_all add: enc_seg2_def bytes_at_Cons rd_u8_def)
  have ia: "inflate_asns buf (seg + 2) (unat ?c) = Inr (concat (map enc_u32 (snd s)))"
    using inflate_asns_enc [OF fit asn] by (simp only: uc)
  have e4: "fst s # ?c # concat (map enc_u32 (snd s)) = enc_seg4 s"
    by (simp add: enc_seg4_def)
  have p4: "enc_path4 (s # x) = enc_seg4 s @ enc_path4 x" by (simp add: enc_path4_def)
  from Cons.prems(4) have lt: "length out < nlen"
    and fitw: "length out + length (enc_seg4 s) \<le> nlen"
    and rest: "length (out @ enc_seg4 s) + length (enc_path4 x) = nlen"
    by (simp_all add: p4 length_enc_seg4)
  have w: "wr_out nlen out (fst s # ?c # concat (map enc_u32 (snd s))) = Inr (out @ enc_seg4 s)"
    using fitw by (simp only: e4 wr_out_def) simp
  have nx: "seg + 2 + 2 * unat ?c = seg + length (enc_seg2 s)"
    by (simp add: uc length_enc_seg2)
  from Cons.IH [OF wf fits r rest]
  have "aspath_copy buf (seg + 2 + 2 * unat ?c) nlen (out @ enc_seg4 s) =
      Inr (out @ enc_path4 (s # x))"
    by (simp only: nx p4 append_assoc)
  with lt show ?case
    by (subst aspath_copy.simps) (simp only: rd ia w bindr_def sum.case if_True)
qed

lemma segments_of_deflate:
  "aspath_wf x \<Longrightarrow> segments_of (aspath_deflate x) = Some (map (\<lambda>s. length (snd s)) x)"
proof (induction x)
  case Nil
  then show ?case by (simp add: aspath_deflate_def)
next
  case (Cons s x)
  then have cnt: "length (snd s) \<le> 255" and wf: "aspath_wf x"
    by (simp_all add: aspath_wf_def)
  have "aspath_deflate (s # x) = fst s # (of_nat (length (snd s)) :: u8) #
      (concat (map (\<lambda>a. enc_u16 (ucast a)) (snd s)) @ aspath_deflate x)"
    by (simp add: aspath_deflate_def enc_seg2_def)
  then show ?case
    using Cons.IH [OF wf] by (simp add: unat_count [OF cnt] length_concat_enc_u16)
qed

lemma inflated_size_path: "inflated_size (map (\<lambda>s. length (snd s)) x) = length (enc_path4 x)"
  by (induction x) (simp_all add: inflated_size_def enc_path4_def length_enc_seg4)

lemma length_deflate_le: "length (aspath_deflate x) \<le> length (enc_path4 x)"
  by (induction x) (simp_all add: aspath_deflate_def enc_path4_def length_enc_seg4 length_enc_seg2)

text \<open>
  The round trip for the paths whose inflated length the \<^verbatim>\<open>uint16_t nlen\<close> holds. For
  a path \<open>x\<close> whose segments have at most 255 AS numbers, all of them below \<open>2^16\<close>,
  and whose encoding with 4-byte AS numbers is at most 65535 bytes long:
  \<^verbatim>\<open>mrt_aspath_inflate\<close> applied to the deflated path returns the encoding of \<open>x\<close>
  with 4-byte AS numbers, and reports its length in bytes.
\<close>

lemma aspath_roundtrip:
  assumes wf: "aspath_wf x" and fit: "asns_fit16 x"
    and size: "length (enc_path4 x) \<le> 65535"
    and buf: "bytes_at buf data (aspath_deflate x)"
  shows "mrt_aspath_inflate buf data (of_nat (length (aspath_deflate x))) =
           Inr (enc_path4 x, of_nat (length (enc_path4 x))) \<and>
         unat (of_nat (length (enc_path4 x)) :: u16) = length (enc_path4 x)"
proof -
  let ?len = "of_nat (length (aspath_deflate x)) :: u16"
  from size length_deflate_le [of x] have "length (aspath_deflate x) \<le> 65535" by simp
  then have ul: "unat ?len = length (aspath_deflate x)" by (simp add: unat_of_nat)
  from buf have inb: "data + unat ?len \<le> length buf"
    and tk: "take (unat ?len) (drop data buf) = aspath_deflate x"
    by (simp_all only: ul) (simp_all add: bytes_at_def)
  have sg: "segments_of (take (unat ?len) (drop data buf)) =
      Some (map (\<lambda>s. length (snd s)) x)"
    by (simp only: tk segments_of_deflate [OF wf])
  have n: "aspath_nlen buf data ?len 0 = Inr (of_nat (length (enc_path4 x)))"
    using nlen_of_segments [OF sg inb, of 0] by (simp add: inflated_size_path)
  have un: "unat (of_nat (length (enc_path4 x)) :: u16) = length (enc_path4 x)"
    using size by (simp add: unat_of_nat)
  have "aspath_copy buf data (length (enc_path4 x)) [] = Inr ([] @ enc_path4 x)"
    by (rule copy_deflated [OF wf fit buf]) simp
  then show ?thesis
    by (simp add: mrt_aspath_inflate_def n bindr_def un)
qed

lemma aspath_roundtrip_example:
  "mrt_aspath_inflate [2, 2, 0, 100, 0, 200] 0 6 =
     Inr ([2, 2, 0, 0, 0, 100, 0, 0, 0, 200], 10)"
proof -
  let ?x = "[(2, [100, 200])] :: as_segment list"
  have d: "aspath_deflate ?x = [2, 2, 0, 100, 0, 200]"
    by (simp add: aspath_deflate_def enc_seg2_def enc_u16_def)
  have e: "enc_path4 ?x = [2, 2, 0, 0, 0, 100, 0, 0, 0, 200]"
    by (simp add: enc_path4_def enc_seg4_def enc_u32_def)
  have h: "aspath_wf ?x" "asns_fit16 ?x" "length (enc_path4 ?x) \<le> 65535"
    "bytes_at [2, 2, 0, 100, 0, 200] 0 (aspath_deflate ?x)"
    by (simp_all add: aspath_wf_def asns_fit16_def e d bytes_at_def)
  from aspath_roundtrip [OF h] show ?thesis by (simp add: d e)
qed

lemma copy_overflow:
  assumes "0 < nlen" and "bytes_at buf seg (enc_seg2 s)" and "length (snd s) \<le> 255"
    and "list_all (\<lambda>a. a < 65536) (snd s)" and "nlen < length (enc_seg4 s)"
  shows "aspath_copy buf seg nlen [] = Inl OutOfBounds"
proof -
  let ?c = "of_nat (length (snd s)) :: u8"
  have uc: "unat ?c = length (snd s)" using assms(3) by (rule unat_count)
  from assms(2) have rd: "rd_u8 buf seg = Inr (fst s)" "rd_u8 buf (seg + 1) = Inr ?c"
    and asn: "bytes_at buf (seg + 2) (concat (map (\<lambda>a. enc_u16 (ucast a)) (snd s)))"
    by (simp_all add: enc_seg2_def bytes_at_Cons rd_u8_def)
  have ia: "inflate_asns buf (seg + 2) (unat ?c) = Inr (concat (map enc_u32 (snd s)))"
    using inflate_asns_enc [OF assms(4) asn] by (simp only: uc)
  have w: "wr_out nlen [] (fst s # ?c # concat (map enc_u32 (snd s))) = Inl OutOfBounds"
    using assms(5) by (simp add: wr_out_def enc_seg4_def)
  from assms(1) have lt: "length ([] :: u8 list) < nlen" by simp
  show ?thesis
    by (subst aspath_copy.simps) (simp only: lt rd ia w bindr_def sum.case if_True)
qed

lemma inflate_long_path:
  assumes b: "bytes_at buf data (aspath_deflate (replicate 65 (2, replicate 255 1)))"
  shows "aspath_nlen buf data 33280 0 = Inr 894 \<and>
         mrt_aspath_inflate buf data 33280 = Inl OutOfBounds"
proof -
  define s :: as_segment where "s = (2, replicate 255 1)"
  define x where "x = replicate 65 s"
  define D where "D = aspath_deflate x"
  have ls: "length (snd s) = 255" by (simp add: s_def)
  have fs: "list_all (\<lambda>a. a < 65536) (snd s)" by (simp add: s_def list_all_iff)
  have wf: "aspath_wf x" by (simp add: x_def aspath_wf_def list_all_iff ls)
  have l2: "length (enc_seg2 s) = 512" by (simp add: length_enc_seg2 ls)
  have l4: "length (enc_seg4 s) = 1022" by (simp add: length_enc_seg4 ls)
  have Dr: "D = concat (replicate 65 (enc_seg2 s))"
    by (simp add: D_def x_def aspath_deflate_def)
  have lD: "length D = 33280" by (simp add: Dr length_concat_replicate l2)
  have l4x: "length (enc_path4 x) = 66430"
    by (simp add: x_def enc_path4_def length_concat_replicate l4)
  from b have bD: "bytes_at buf data D" by (simp only: D_def x_def s_def)
  have u: "unat (33280 :: u16) = 33280" by simp
  from bD have inb: "data + unat (33280 :: u16) \<le> length buf"
    and tk: "take (unat (33280 :: u16)) (drop data buf) = D"
    by (simp_all only: u) (simp_all add: bytes_at_def lD)
  have sg: "segments_of (take (unat (33280 :: u16)) (drop data buf)) =
      Some (map (\<lambda>s. length (snd s)) x)"
    by (simp only: tk) (simp only: D_def segments_of_deflate [OF wf])
  have n: "aspath_nlen buf data 33280 0 = Inr 894"
    using nlen_of_segments [OF sg inb, of 0] by (simp add: inflated_size_path l4x)
  have "D = enc_seg2 s @ concat (replicate 64 (enc_seg2 s))"
    by (simp add: Dr eval_nat_numeral)
  with bD have bs: "bytes_at buf data (enc_seg2 s)"
    by (simp add: bytes_at_append)
  have c: "aspath_copy buf data 894 [] = Inl OutOfBounds"
    by (rule copy_overflow [OF _ bs _ fs]) (simp_all add: ls l4)
  have "mrt_aspath_inflate buf data 33280 = Inl OutOfBounds"
    by (simp add: mrt_aspath_inflate_def n c bindr_def)
  with n show ?thesis by simp
qed

text \<open>
  Claim C5 (deflating a well-formed path whose AS numbers fit in 16 bits and inflating
  it with \<^verbatim>\<open>mrt_aspath_inflate\<close> gives the path back, with its length in bytes) does
  not hold of the code for the longer paths. The path of 65 segments of 255 AS numbers
  deflates to 33280 bytes, a length that \<^verbatim>\<open>uint16_t len\<close> and the length field of an
  \<^verbatim>\<open>AS_PATH\<close> attribute hold; its encoding with 4-byte AS numbers has 66430 bytes. The
  first loop (\<open>first calculate the length of the aspath\<close>) adds up the length in the
  \<^verbatim>\<open>uint16_t nlen\<close> and arrives at 894; 894 bytes are allocated, and the copy loop
  writes the first segment of 1022 bytes past their end. \<^verbatim>\<open>mrt_extract_attr\<close> gets
  there with \<open>as4\<close> false on the \<^verbatim>\<open>AS_PATH\<close> attribute \<open>50 02 82 00\<close> that carries the
  deflated path.
\<close>

theorem inflate_overruns_allocation:
  "aspath_wf (replicate 65 (2, replicate 255 1)) \<and>
   asns_fit16 (replicate 65 (2, replicate 255 1)) \<and>
   length (aspath_deflate (replicate 65 (2, replicate 255 1))) = 33280 \<and>
   length (enc_path4 (replicate 65 (2, replicate 255 1))) = 66430 \<and>
   aspath_nlen (aspath_deflate (replicate 65 (2, replicate 255 1))) 0
     (of_nat (length (aspath_deflate (replicate 65 (2, replicate 255 1))))) 0 = Inr 894 \<and>
   mrt_aspath_inflate (aspath_deflate (replicate 65 (2, replicate 255 1))) 0
     (of_nat (length (aspath_deflate (replicate 65 (2, replicate 255 1))))) = Inl OutOfBounds \<and>
   mrt_extract_attr entry_zero
     ([80, 2, 130, 0] @ aspath_deflate (replicate 65 (2, replicate 255 1))) 0 33284
     AID_INET False = Inl OutOfBounds"
proof -
  define s :: as_segment where "s = (2, replicate 255 1)"
  define x where "x = replicate 65 s"
  define D where "D = aspath_deflate x"
  have ls: "length (snd s) = 255" by (simp add: s_def)
  have fs: "list_all (\<lambda>a. a < 65536) (snd s)" by (simp add: s_def list_all_iff)
  have wf: "aspath_wf x" by (simp add: x_def aspath_wf_def list_all_iff ls)
  have fit: "asns_fit16 x" using fs by (simp add: x_def asns_fit16_def list_all_iff)
  have l2: "length (enc_seg2 s) = 512" by (simp add: length_enc_seg2 ls)
  have l4: "length (enc_seg4 s) = 1022" by (simp add: length_enc_seg4 ls)
  have Dr: "D = concat (replicate 65 (enc_seg2 s))"
    by (simp add: D_def x_def aspath_deflate_def)
  have lD: "length D = 33280" by (simp add: Dr length_concat_replicate l2)
  have l4x: "length (enc_path4 x) = 66430"
    by (simp add: x_def enc_path4_def length_concat_replicate l4)
  have D': "aspath_deflate (replicate 65 (2, replicate 255 1)) = D"
    by (simp only: D_def x_def s_def)
  have "bytes_at D 0 D" by (simp add: bytes_at_def)
  then have "bytes_at D 0 (aspath_deflate (replicate 65 (2, replicate 255 1)))"
    by (simp only: D')
  from inflate_long_path [OF this]
  have i0: "aspath_nlen D 0 (of_nat (length D)) 0 = Inr 894"
    "mrt_aspath_inflate D 0 (of_nat (length D)) = Inl OutOfBounds"
    by (simp_all add: lD)
  let ?buf = "[80, 2, 130, 0] @ D"
  have "bytes_at ?buf 4 D" by (simp add: bytes_at_def)
  then have b: "bytes_at ?buf 4 (aspath_deflate (replicate 65 (2, replicate 255 1)))"
    by (simp only: D')
  have h: "bytes_at ?buf 0 (attr_hdr 80 MRT_ATTR_ASPATH 33280)" "hdr_ok 80 33280"
    by (simp_all add: bytes_at_def attr_hdr_def hdr_ok_def MRT_ATTR_EXTLEN_def
        MRT_ATTR_ASPATH_def enc_u16_def)
  have "attr_step entry_zero ?buf 0 33284 AID_INET False = Inl OutOfBounds"
    using inflate_long_path [OF b] attr_step_hdr [OF h, of entry_zero 33284 AID_INET False]
    by (simp add: attr_switch_def attr_hdr_def MRT_ATTR_EXTLEN_def
        MRT_ATTR_ASPATH_def MRT_ATTR_ORIGIN_def bindr_def)
  then have ex: "mrt_extract_attr entry_zero ?buf 0 33284 AID_INET False = Inl OutOfBounds"
    by (rule extract_attr_error)
  from wf fit lD l4x i0 ex show ?thesis unfolding D_def x_def s_def by blast
qed

section \<open>Attribute lengths that are not checked\<close>

lemmas attr_eval = attr_step_def attr_header_def attr_switch_def attr_mp_reach_def
  attr_default_def rd_u8_def rd_u16_def rd_u32_def rd_bytes_def bindr_def be_word_def set_v4_def
  MRT_ATTR_EXTLEN_def MRT_ATTR_ORIGIN_def MRT_ATTR_ASPATH_def MRT_ATTR_NEXTHOP_def
  MRT_ATTR_MED_def MRT_ATTR_LOCALPREF_def MRT_ATTR_MP_REACH_NLRI_def MRT_ATTR_AS4PATH_def

text \<open>
  Claim C2 does not hold of the code: the declared length of an attribute is never
  compared with the bytes left in the span. The span of three bytes \<open>40 03 04\<close> is a
  \<^verbatim>\<open>NEXT_HOP\<close> that declares four payload bytes and has none. When the record goes on
  behind the span, \<^verbatim>\<open>mrt_extract_attr\<close> returns 0 with the next four bytes as the
  next hop; when the span ends the buffer, it reads past the end of the buffer.
\<close>

theorem overlong_nexthop_accepted:
  "mrt_extract_attr entry_zero [64, 3, 4, 10, 0, 0, 1] 0 3 AID_INET True =
     Inr (entry_zero\<lparr>nexthop := \<lparr>aid = AID_INET, v = [10, 0, 0, 1] @ replicate 12 0\<rparr>\<rparr>) \<and>
   mrt_extract_attr entry_zero [64, 3, 4] 0 3 AID_INET True = Inl OutOfBounds"
proof
  have "attr_step entry_zero [64, 3, 4, 10, 0, 0, 1] 0 3 AID_INET True =
      Inr (entry_zero\<lparr>nexthop := \<lparr>aid = AID_INET, v = [10, 0, 0, 1] @ replicate 12 0\<rparr>\<rparr>, 7, - 4)"
    by (simp add: attr_eval entry_zero_def addr_zero_def)
  then show "mrt_extract_attr entry_zero [64, 3, 4, 10, 0, 0, 1] 0 3 AID_INET True =
      Inr (entry_zero\<lparr>nexthop := \<lparr>aid = AID_INET, v = [10, 0, 0, 1] @ replicate 12 0\<rparr>\<rparr>)"
    by (simp add: extract_attr_last)
next
  have "attr_step entry_zero [64, 3, 4] 0 3 AID_INET True = Inl OutOfBounds"
    by (simp add: attr_eval)
  then show "mrt_extract_attr entry_zero [64, 3, 4] 0 3 AID_INET True = Inl OutOfBounds"
    by (rule extract_attr_error)
qed

lemma u16_minus_1: "(- 1 :: u16) = 65535"
  by simp

text \<open>
  Claim C3 does not hold of the code for a payload shorter than the three bytes that
  are skipped: \<^verbatim>\<open>attr_len -= 3\<close> wraps around in 16 bits and the length tests pass.
  Here an \<^verbatim>\<open>MP_REACH_NLRI\<close> with a payload of two bytes (\<open>00 02\<close>) in an IPv6 record
  is followed by three other attributes: \<^verbatim>\<open>mrt_extract_attr\<close> returns 0, takes the
  next hop from the bytes of the attributes that follow, and never decodes them.
\<close>

theorem short_mp_reach_accepted:
  "mrt_extract_attr entry_zero
     [128, 14, 2, 0, 2, 64, 1, 1, 0, 64, 5, 4, 0, 0, 0, 100, 192, 8, 4, 1, 2, 3, 4]
     0 23 AID_INET6 True =
   Inr (entry_zero\<lparr>nexthop :=
          \<lparr>aid = AID_INET6, v = [1, 0, 64, 5, 4, 0, 0, 0, 100, 192, 8, 4, 1, 2, 3, 4]\<rparr>\<rparr>)"
proof -
  let ?buf = "[128, 14, 2, 0, 2, 64, 1, 1, 0, 64, 5, 4, 0, 0, 0, 100, 192, 8, 4, 1, 2, 3, 4]
    :: u8 list"
  have "attr_step entry_zero ?buf 0 23 AID_INET6 True =
      Inr (entry_zero\<lparr>nexthop :=
          \<lparr>aid = AID_INET6, v = [1, 0, 64, 5, 4, 0, 0, 0, 100, 192, 8, 4, 1, 2, 3, 4]\<rparr>\<rparr>,
        65541, - 65518)"
    by (simp add: attr_eval u16_minus_1)
  then show ?thesis by (simp add: extract_attr_last)
qed

text \<open>
  Claim C10 (every span that contains a \<^verbatim>\<open>NEXT_HOP\<close> whose declared length is not 4
  makes \<^verbatim>\<open>mrt_extract_attr\<close> fail, whatever the address family) does not hold of the
  code when an \<^verbatim>\<open>MP_REACH_NLRI\<close> with a payload shorter than three bytes stands before
  the \<^verbatim>\<open>NEXT_HOP\<close>. The span below holds such an \<^verbatim>\<open>MP_REACH_NLRI\<close>, then a \<^verbatim>\<open>NEXT_HOP\<close>
  of declared length 5 (\<open>40 03 05 01 02 03 04 05\<close>), an \<^verbatim>\<open>ORIGIN\<close> and a \<^verbatim>\<open>LOCAL_PREF\<close>.
  The wrapped \<^verbatim>\<open>attr_len\<close> carries the loop past the end of the span: the \<^verbatim>\<open>NEXT_HOP\<close>
  case is never entered and \<^verbatim>\<open>mrt_extract_attr\<close> returns 0, in an IPv6 record (whose
  next hop becomes the bytes of the attributes that follow) and in an IPv4 record
  (whose entry stays as it was) alike, for both values of \<open>as4\<close>.
\<close>

theorem bad_nexthop_accepted:
  "mrt_extract_attr entry_zero
     [128, 14, 2, 0, 2, 64, 3, 5, 1, 2, 3, 4, 5, 64, 1, 1, 0, 64, 5, 4, 0, 0, 0, 100]
     0 24 AID_INET6 as4 =
   Inr (entry_zero\<lparr>nexthop :=
          \<lparr>aid = AID_INET6, v = [5, 1, 2, 3, 4, 5, 64, 1, 1, 0, 64, 5, 4, 0, 0, 0]\<rparr>\<rparr>) \<and>
   mrt_extract_attr entry_zero
     [128, 14, 2, 0, 2, 64, 3, 5, 1, 2, 3, 4, 5, 64, 1, 1, 0, 64, 5, 4, 0, 0, 0, 100]
     0 24 AID_INET as4 = Inr entry_zero"
proof
  let ?buf = "[128, 14, 2, 0, 2, 64, 3, 5, 1, 2, 3, 4, 5, 64, 1, 1, 0, 64, 5, 4, 0, 0, 0, 100]
    :: u8 list"
  have "attr_step entry_zero ?buf 0 24 AID_INET6 as4 =
      Inr (entry_zero\<lparr>nexthop :=
          \<lparr>aid = AID_INET6, v = [5, 1, 2, 3, 4, 5, 64, 1, 1, 0, 64, 5, 4, 0, 0, 0]\<rparr>\<rparr>,
        65541, - 65517)"
    by (simp add: attr_eval u16_minus_1)
  then show "mrt_extract_attr entry_zero ?buf 0 24 AID_INET6 as4 =
      Inr (entry_zero\<lparr>nexthop :=
          \<lparr>aid = AID_INET6, v = [5, 1, 2, 3, 4, 5, 64, 1, 1, 0, 64, 5, 4, 0, 0, 0]\<rparr>\<rparr>)"
    by (simp add: extract_attr_last)
next
  let ?buf = "[128, 14, 2, 0, 2, 64, 3, 5, 1, 2, 3, 4, 5, 64, 1, 1, 0, 64, 5, 4, 0, 0, 0, 100]
    :: u8 list"
  have "attr_step entry_zero ?buf 0 24 AID_INET as4 = Inr (entry_zero, 65541, - 65517)"
    by (simp add: attr_eval u16_minus_1)
  then show "mrt_extract_attr entry_zero ?buf 0 24 AID_INET as4 = Inr entry_zero"
    by (simp add: extract_attr_last)
qed

text \<open>
  Claim C4 (in every block that contains an \<^verbatim>\<open>AS4_PATH\<close>, the attribute replaces the
  \<open>aspath\<close> of the entry by a copy of its payload when \<open>as4\<close> is false, and is appended
  in full to the extra attributes when \<open>as4\<close> is true) does not hold of the code when an
  \<^verbatim>\<open>MP_REACH_NLRI\<close> with a payload shorter than three bytes stands before the
  \<^verbatim>\<open>AS4_PATH\<close>. The block below holds such an \<^verbatim>\<open>MP_REACH_NLRI\<close> and then the \<^verbatim>\<open>AS4_PATH\<close>
  \<open>c0 11 06 02 01 00 00 00 64\<close> (one sequence of the AS number 100). In an IPv4
  record \<^verbatim>\<open>mrt_extract_attr\<close> returns 0 and the entry is the one it was given: with
  \<open>as4\<close> false it has no \<open>aspath\<close>, with \<open>as4\<close> true it has no extra attribute.
\<close>

theorem as4path_dropped:
  "mrt_extract_attr entry_zero [128, 14, 2, 0, 2, 192, 17, 6, 2, 1, 0, 0, 0, 100]
     0 14 AID_INET False = Inr entry_zero \<and>
   mrt_extract_attr entry_zero [128, 14, 2, 0, 2, 192, 17, 6, 2, 1, 0, 0, 0, 100]
     0 14 AID_INET True = Inr entry_zero \<and>
   aspath entry_zero = None \<and> attrs entry_zero = [] \<and> nattrs entry_zero = 0"
proof (intro conjI)
  let ?buf = "[128, 14, 2, 0, 2, 192, 17, 6, 2, 1, 0, 0, 0, 100] :: u8 list"
  have "attr_step entry_zero ?buf 0 14 AID_INET as4 = Inr (entry_zero, 65541, - 65527)" for as4
    by (simp add: attr_eval u16_minus_1)
  then show "mrt_extract_attr entry_zero ?buf 0 14 AID_INET False = Inr entry_zero"
    "mrt_extract_attr entry_zero ?buf 0 14 AID_INET True = Inr entry_zero"
    by (simp_all add: extract_attr_last)
  show "aspath entry_zero = None" "attrs entry_zero = []" "nattrs entry_zero = 0"
    by (simp_all add: entry_zero_def)
qed

section \<open>Framing and dispatch\<close>

lemma read_buf_bytes:
  "mrt_read_buf fd n = Inr (got, fd') \<Longrightarrow> length got \<le> length (fd_bytes fd)"
proof (induction fd n arbitrary: got fd' rule: mrt_read_buf.induct)
  case (5 bs fd n)
  show ?case
  proof (cases "bs = []")
    case True
    with "5.prems" show ?thesis by simp
  next
    case False
    show ?thesis
    proof (cases "length bs \<le> Suc n")
      case True
      with False "5.prems" obtain g where
        r: "mrt_read_buf fd (Suc n - length bs) = Inr (g, fd')" and g: "got = bs @ g"
        by (auto simp: bindr_def split: sum.splits)
      from "5.IH" [OF False True r] g show ?thesis by simp
    next
      case b: False
      with False "5.prems" show ?thesis by auto
    qed
  qed
qed auto

lemma parse_loop_end:
  "mrt_read_msg fd = Inr None \<Longrightarrow> mrt_parse_loop nlri fd p pctx = ([], None)"
  by (subst mrt_parse_loop.simps) simp

lemma parse_loop_error:
  "mrt_read_msg fd = Inl e \<Longrightarrow> mrt_parse_loop nlri fd p pctx = ([], Some e)"
  by (subst mrt_parse_loop.simps) simp

text \<open>
  Claim C7. From any peer context, that is after any number of records: when the
  read of the header gives fewer than 12 bytes, or the read of the payload gives
  fewer bytes than the length field of the header says, the loop of \<^verbatim>\<open>mrt_parse\<close> ends
  there, calling no callback and without an error. In particular, when the whole
  stream holds fewer than 12 bytes, \<^verbatim>\<open>mrt_parse\<close> calls no callback at all.
\<close>

theorem truncated_stream_ends_cleanly:
  "(mrt_read_buf fd 12 = Inr (hb, fd1) \<and> length hb < 12 \<longrightarrow>
      mrt_parse_loop nlri fd p pctx = ([], None)) \<and>
   (mrt_read_buf fd 12 = Inr (hb, fd1) \<and> length hb = 12 \<and>
    mrt_read_buf fd1 (unat (hdr_length (parse_hdr hb))) = Inr (buf, fd2) \<and>
    length buf < unat (hdr_length (parse_hdr hb)) \<longrightarrow>
      mrt_parse_loop nlri fd p pctx = ([], None)) \<and>
   (length (fd_bytes fd) < 12 \<longrightarrow> fst (mrt_parse nlri fd p) = [])"
proof (intro conjI impI)
  assume "mrt_read_buf fd 12 = Inr (hb, fd1) \<and> length hb < 12"
  then have "mrt_read_msg fd = Inr None" by (simp add: mrt_read_msg_def bindr_def)
  then show "mrt_parse_loop nlri fd p pctx = ([], None)" by (rule parse_loop_end)
next
  assume "mrt_read_buf fd 12 = Inr (hb, fd1) \<and> length hb = 12 \<and>
    mrt_read_buf fd1 (unat (hdr_length (parse_hdr hb))) = Inr (buf, fd2) \<and>
    length buf < unat (hdr_length (parse_hdr hb))"
  then have "mrt_read_msg fd = Inr None" by (simp add: mrt_read_msg_def bindr_def Let_def)
  then show "mrt_parse_loop nlri fd p pctx = ([], None)" by (rule parse_loop_end)
next
  assume short: "length (fd_bytes fd) < 12"
  show "fst (mrt_parse nlri fd p) = []"
  proof (cases "mrt_read_buf fd 12")
    case (Inl e)
    then have "mrt_read_msg fd = Inl e" by (simp add: mrt_read_msg_def bindr_def)
    then show ?thesis by (simp add: mrt_parse_def parse_loop_error)
  next
    case (Inr r)
    obtain hb fd1 where r: "r = (hb, fd1)" by (cases r)
    from read_buf_bytes [OF Inr [unfolded r]] short have "length hb \<noteq> 12" by simp
    with Inr r have "mrt_read_msg fd = Inr None" by (simp add: mrt_read_msg_def bindr_def)
    then show ?thesis by (simp add: mrt_parse_def parse_loop_end)
  qed
qed

lemma read_buf_Nil: "mrt_read_buf [] n = Inr ([], [])"
  by (cases n) simp_all

lemma read_buf_EINTR: "0 < n \<Longrightarrow> mrt_read_buf (EINTR # fd) n = mrt_read_buf fd n"
  by (cases n) simp_all

lemma read_buf_Data:
  "0 < n \<Longrightarrow> bs \<noteq> [] \<Longrightarrow>
   mrt_read_buf (Data bs # fd) n =
     (if length bs \<le> n
      then bindr (mrt_read_buf fd (n - length bs)) (\<lambda>(got, fd'). Inr (bs @ got, fd'))
      else Inr (take n bs, Data (drop n bs) # fd))"
  by (cases n) simp_all

lemmas read_eval = read_buf_Nil read_buf_EINTR read_buf_Data mrt_read_buf.simps(1) bindr_def

theorem truncated_stream_ends_cleanly_witness:
  "mrt_parse_loop (\<lambda>a m b l. Inl Reject) [Data [0, 0, 0, 1, 0, 13], EINTR, Data [0, 1]]
     \<lparr>dump_set = True, state_set = True, message_set = True\<rparr> None = ([], None) \<and>
   mrt_parse_loop (\<lambda>a m b l. Inl Reject)
     [Data [0, 0, 0, 0, 0, 13, 0, 2, 0, 0, 0, 100, 0, 0, 0, 1, 24]]
     \<lparr>dump_set = True, state_set = True, message_set = True\<rparr> None = ([], None) \<and>
   fst (mrt_parse (\<lambda>a m b l. Inl Reject) [Data [0, 0, 0, 1, 0, 13], EINTR, Data [0, 1]]
     \<lparr>dump_set = True, state_set = True, message_set = True\<rparr>) = []"
proof (intro conjI)
  let ?fd = "[Data [0, 0, 0, 1, 0, 13], EINTR, Data [0, 1]]"
  let ?n = "(\<lambda>a m b l. Inl Reject) :: nlri"
  let ?p = "\<lparr>dump_set = True, state_set = True, message_set = True\<rparr>"
  have r: "mrt_read_buf ?fd 12 = Inr ([0, 0, 0, 1, 0, 13, 0, 1], [])"
    by (simp add: read_eval)
  from truncated_stream_ends_cleanly [of ?fd "[0, 0, 0, 1, 0, 13, 0, 1]" "[]" ?n ?p None] r
  show "mrt_parse_loop ?n ?fd ?p None = ([], None)" by simp
  have "length (fd_bytes ?fd) < 12" by simp
  with truncated_stream_ends_cleanly [of ?fd _ _ ?n ?p]
  show "fst (mrt_parse ?n ?fd ?p) = []" by blast
next
  let ?fd = "[Data [0, 0, 0, 0, 0, 13, 0, 2, 0, 0, 0, 100, 0, 0, 0, 1, 24]]"
  let ?hb = "[0, 0, 0, 0, 0, 13, 0, 2, 0, 0, 0, 100] :: u8 list"
  let ?n = "(\<lambda>a m b l. Inl Reject) :: nlri"
  let ?p = "\<lparr>dump_set = True, state_set = True, message_set = True\<rparr>"
  have r: "mrt_read_buf ?fd 12 = Inr (?hb, [Data [0, 0, 0, 1, 24]])"
    by (simp add: read_eval)
  have l: "hdr_length (parse_hdr ?hb) = 100" by (simp add: parse_hdr_def be_word_def)
  have r2: "mrt_read_buf [Data [0, 0, 0, 1, 24]] (unat (hdr_length (parse_hdr ?hb))) =
      Inr ([0, 0, 0, 1, 24], [])"
    by (simp add: l read_eval)
  from truncated_stream_ends_cleanly
    [of ?fd ?hb "[Data [0, 0, 0, 1, 24]]" ?n ?p None "[0, 0, 0, 1, 24]" "[]"] r r2 l
  show "mrt_parse_loop ?n ?fd ?p None = ([], None)" by simp
qed

lemmas parse_eval = mrt_parse_state_def mrt_parse_v2_peer_def mrt_parse_dump_mp_def
  bgp4mp_common_def src_dst_addr_def mrt_extract_addr_def mrt_extract_prefix_def
  mrt_afi2aid_def peer0_addr_def upd_peer0_def legacy_peers_def peer_entry_zero_def
  addr_zero_def or_fail_def
  rd_u8_def rd_u16_def rd_u32_def rd_bytes_def bindr_def be_word_def set_v4_def Let_def
  MSG_PROTOCOL_BGP4MP_ET_def MSG_PROTOCOL_BGP4MP_def MSG_TABLE_DUMP_def MSG_TABLE_DUMP_V2_def
  BGP4MP_STATE_CHANGE_def BGP4MP_STATE_CHANGE_AS4_def BGP4MP_ENTRY_def
  MRT_DUMP_AFI_IP_def MRT_DUMP_AFI_IPv6_def MRT_DUMP_V2_PEER_BIT_I_def
  MRT_DUMP_V2_PEER_BIT_A_def MRT_DUMP_V2_PEER_INDEX_TABLE_def

text \<open>
  Claim C1 does not hold of the code: three reads are made without a test of the
  bytes left. A \<^verbatim>\<open>BGP4MP_STATE_CHANGE\<close> record of 16 bytes ends behind the two
  addresses, and \<^verbatim>\<open>mrt_parse_state\<close> reads the two states behind the buffer. A peer
  index table of 17 bytes ends behind the address of its one peer, and
  \<^verbatim>\<open>mrt_parse_v2_peer\<close> reads the AS number behind the buffer. A \<^verbatim>\<open>BGP4MP_ENTRY\<close>
  record of 33 bytes ends behind a prefix of one byte (here the prefix decoder is the
  one that reads a prefix of length 0 from one byte), and \<^verbatim>\<open>mrt_parse_dump_mp\<close>
  reads the attribute length behind the buffer. The last line is the first record as
  a stream given to \<^verbatim>\<open>mrt_parse\<close>.
\<close>

theorem unchecked_reads:
  "mrt_parse_state \<lparr>hdr_timestamp = 0, hdr_type = 16, hdr_subtype = 0, hdr_length = 16\<rparr>
     [0, 1, 0, 2, 0, 0, 0, 1, 10, 0, 0, 1, 10, 0, 0, 2] = Inl OutOfBounds \<and>
   mrt_parse_v2_peer \<lparr>hdr_timestamp = 0, hdr_type = 13, hdr_subtype = 1, hdr_length = 17\<rparr>
     [1, 2, 3, 4, 0, 0, 0, 1, 2, 5, 6, 7, 8, 10, 0, 0, 1] = Inl OutOfBounds \<and>
   mrt_parse_dump_mp (\<lambda>a m b l. Inr (\<lparr>aid = a, v = replicate 16 0\<rparr>, 0, 1))
     \<lparr>hdr_timestamp = 0, hdr_type = 16, hdr_subtype = 2, hdr_length = 33\<rparr>
     [0, 1, 0, 2, 0, 0, 0, 1, 10, 0, 0, 1, 10, 0, 0, 2, 0, 0, 0, 0, 0, 0, 0, 9, 0, 1, 1, 4,
      10, 0, 0, 3, 0] None = Inl OutOfBounds \<and>
   mrt_parse nlri
     [Data [0, 0, 0, 0, 0, 16, 0, 0, 0, 0, 0, 16,
            0, 1, 0, 2, 0, 0, 0, 1, 10, 0, 0, 1, 10, 0, 0, 2]] p = ([], Some OutOfBounds)"
proof (intro conjI)
  show s: "mrt_parse_state \<lparr>hdr_timestamp = 0, hdr_type = 16, hdr_subtype = 0, hdr_length = 16\<rparr>
     [0, 1, 0, 2, 0, 0, 0, 1, 10, 0, 0, 1, 10, 0, 0, 2] = Inl OutOfBounds"
    by (simp add: parse_eval)
  show "mrt_parse_v2_peer \<lparr>hdr_timestamp = 0, hdr_type = 13, hdr_subtype = 1, hdr_length = 17\<rparr>
     [1, 2, 3, 4, 0, 0, 0, 1, 2, 5, 6, 7, 8, 10, 0, 0, 1] = Inl OutOfBounds"
    by (simp add: parse_eval)
  show "mrt_parse_dump_mp (\<lambda>a m b l. Inr (\<lparr>aid = a, v = replicate 16 0\<rparr>, 0, 1))
     \<lparr>hdr_timestamp = 0, hdr_type = 16, hdr_subtype = 2, hdr_length = 33\<rparr>
     [0, 1, 0, 2, 0, 0, 0, 1, 10, 0, 0, 1, 10, 0, 0, 2, 0, 0, 0, 0, 0, 0, 0, 9, 0, 1, 1, 4,
      10, 0, 0, 3, 0] None = Inl OutOfBounds"
    by (simp add: parse_eval)
  let ?fd = "[Data [0, 0, 0, 0, 0, 16, 0, 0, 0, 0, 0, 16,
            0, 1, 0, 2, 0, 0, 0, 1, 10, 0, 0, 1, 10, 0, 0, 2]]"
  let ?h = "\<lparr>hdr_timestamp = 0, hdr_type = 16, hdr_subtype = 0, hdr_length = 16\<rparr>"
  have "mrt_read_msg ?fd = Inr (Some (?h, [0, 1, 0, 2, 0, 0, 0, 1, 10, 0, 0, 1, 10, 0, 0, 2], []))"
    by (simp add: mrt_read_msg_def read_eval parse_hdr_def be_word_def)
  moreover have "mrt_dispatch nlri p ?h [0, 1, 0, 2, 0, 0, 0, 1, 10, 0, 0, 1, 10, 0, 0, 2] None
      = Inl OutOfBounds"
    by (simp add: mrt_dispatch_def s or_fail_def MSG_TABLE_DUMP_def MSG_TABLE_DUMP_V2_def
        MSG_PROTOCOL_BGP4MP_def MSG_PROTOCOL_BGP4MP_ET_def BGP4MP_STATE_CHANGE_def)
  ultimately show "mrt_parse nlri ?fd p = ([], Some OutOfBounds)"
    unfolding mrt_parse_def by (subst mrt_parse_loop.simps) simp
qed

section \<open>The peer index table\<close>

lemma unat_ucast_u8_any: "unat (ucast (x :: u8) :: 'a::len word) = unat x mod 2 ^ LENGTH('a)"
  by (simp add: unsigned_ucast_eq take_bit_eq_mod)

lemma divmod_256: "r < 256 \<Longrightarrow> (q * 256 + r) div 256 = (q::nat)" "r < 256 \<Longrightarrow> (q * 256 + r) mod 256 = (r::nat)"
  by simp_all

lemma enc_u16_be_word:
  assumes "length bs = 2"
  shows "enc_u16 (be_word bs) = bs"
proof -
  from assms have "length bs = Suc (Suc 0)" by simp
  then obtain a b where bs: "bs = [a, b]"
    by (auto simp: length_Suc_conv)
  have la: "unat a < 256" and lb: "unat b < 256" by (rule unat_u8_less)+
  have "(be_word bs :: u16) = of_nat (unat a * 256 + unat b)"
    by (simp add: bs be_word_def of_nat_unat)
  then have "unat (be_word bs :: u16) = (unat a * 256 + unat b) mod 65536"
    by (simp only: unat_of_nat) simp
  also have "\<dots> = unat a * 256 + unat b" using la lb by simp
  finally have n: "unat (be_word bs :: u16) = unat a * 256 + unat b" .
  show ?thesis
    unfolding enc_u16_def n using lb by (simp add: bs divmod_256 of_nat_unat)
qed

lemma enc_u32_be_word:
  assumes "length bs = 4"
  shows "enc_u32 (be_word bs) = bs"
proof -
  from assms have "length bs = Suc (Suc (Suc (Suc 0)))" by simp
  then obtain a b c d where bs: "bs = [a, b, c, d]"
    by (auto simp: length_Suc_conv)
  have la: "unat a < 256" and lb: "unat b < 256" and lc: "unat c < 256" and ld: "unat d < 256"
    by (rule unat_u8_less)+
  define A where "A = ((unat a * 256 + unat b) * 256 + unat c) * 256 + unat d"
  have "(be_word bs :: u32) = of_nat A"
    by (simp add: bs be_word_def of_nat_unat A_def)
  then have "unat (be_word bs :: u32) = A mod 4294967296"
    by (simp only: unat_of_nat) simp
  also have "\<dots> = A" using la lb lc ld by (simp add: A_def)
  finally have n: "unat (be_word bs :: u32) = A" .
  have d1: "A div 256 = (unat a * 256 + unat b) * 256 + unat c" and m0: "A mod 256 = unat d"
    unfolding A_def using ld by (simp_all only: divmod_256)
  have "A div 65536 = A div 256 div 256" by (simp add: div_mult2_eq [symmetric])
  then have d2: "A div 65536 = unat a * 256 + unat b" using lc by (simp only: d1 divmod_256)
  have "A div 16777216 = A div 65536 div 256" by (simp add: div_mult2_eq [symmetric])
  then have d3: "A div 16777216 = unat a" using lb by (simp only: d2 divmod_256)
  have m1: "A div 256 mod 256 = unat c" using lc by (simp only: d1 divmod_256)
  have m2: "A div 65536 mod 256 = unat b" using lb by (simp only: d2 divmod_256)
  show ?thesis
    unfolding enc_u32_def n by (simp only: d3 m2 m1 m0 of_nat_unat ucast_id bs)
qed

lemma rd_u8_inv: "rd_u8 msg b = Inr x \<Longrightarrow> drop b msg = x # drop (b + 1) msg"
  by (auto simp: rd_u8_def Cons_nth_drop_Suc split: if_splits)

lemma rd_bytes_inv:
  "rd_bytes msg b n = Inr bs \<Longrightarrow> length bs = n \<and> drop b msg = bs @ drop (b + n) msg"
proof -
  assume a: "rd_bytes msg b n = Inr bs"
  show ?thesis
  proof (cases "n = 0")
    case True
    with a show ?thesis by (simp add: rd_bytes_def)
  next
    case False
    with a have le: "b + n \<le> length msg" and bs: "bs = take n (drop b msg)"
      by (auto simp: rd_bytes_def split: if_splits)
    have "take n (drop b msg) @ drop n (drop b msg) = drop b msg"
      by (rule append_take_drop_id)
    then have "take n (drop b msg) @ drop (b + n) msg = drop b msg"
      by (simp only: drop_drop add.commute [of n b])
    with le bs show ?thesis by simp
  qed
qed

lemma rd_u16_inv: "rd_u16 msg b = Inr w \<Longrightarrow> drop b msg = enc_u16 w @ drop (b + 2) msg"
  by (auto simp: rd_u16_def bindr_def enc_u16_be_word split: sum.splits
      dest!: rd_bytes_inv)

lemma rd_u32_inv: "rd_u32 msg b = Inr w \<Longrightarrow> drop b msg = enc_u32 w @ drop (b + 4) msg"
  by (auto simp: rd_u32_def bindr_def enc_u32_be_word split: sum.splits
      dest!: rd_bytes_inv)

lemma extract_addr_inet_inv:
  assumes "mrt_extract_addr msg b len AID_INET = Inr (a, r)" "r \<noteq> - 1"
  shows "\<exists>ab. length ab = 4 \<and> drop b msg = ab @ drop (b + 4) msg \<and>
              a = \<lparr>aid = AID_INET, v = ab @ replicate 12 0\<rparr>"
  using assms
  by (auto simp: mrt_extract_addr_def bindr_def set_v4_def addr_zero_def
      split: if_splits sum.splits dest!: rd_bytes_inv)

lemma extract_addr_inet6_inv:
  assumes "mrt_extract_addr msg b len AID_INET6 = Inr (a, r)" "r \<noteq> - 1"
  shows "\<exists>ab. length ab = 16 \<and> drop b msg = ab @ drop (b + 16) msg \<and>
              a = \<lparr>aid = AID_INET6, v = ab\<rparr>"
  using assms
  by (auto simp: mrt_extract_addr_def bindr_def split: if_splits sum.splits
      dest!: rd_bytes_inv)

lemma ucast_u16_u32_u16: "(ucast (ucast (w :: u16) :: u32) :: u16) = w"
  by (rule ucast_up_ucast_id) (simp add: is_up)

lemma ucast_u16_u32_less: "(ucast (w :: u16) :: u32) < 65536"
proof -
  have "unat w < 65536" using unsigned_less [of w, where 'a = nat] by simp
  then have "unat (ucast w :: u32) < 65536"
    by (simp add: unsigned_ucast_eq take_bit_nat_eq_self)
  then show ?thesis by (simp add: word_less_nat_alt)
qed

lemma peer_addr_inv:
  assumes "(if ty AND MRT_DUMP_V2_PEER_BIT_I \<noteq> 0
            then bindr (mrt_extract_addr msg (b + 5) (len - 5) AID_INET6) (\<lambda>(a, r).
                 if r = - 1 then Inl Reject else Inr (a, b + 5 + 16, len - 5 - 16))
            else bindr (mrt_extract_addr msg (b + 5) (len - 5) AID_INET) (\<lambda>(a, r).
                 if r = - 1 then Inl Reject else Inr (a, b + 5 + 4, len - 5 - 4)))
           = Inr (a, b1, len1)"
  shows "\<exists>ab. length ab = (if peer_ipv6 ty then 16 else 4) \<and>
           drop (b + 5) msg = ab @ drop b1 msg \<and> b1 = b + 5 + length ab \<and>
           a = (if peer_ipv6 ty then \<lparr>aid = AID_INET6, v = ab\<rparr>
                else \<lparr>aid = AID_INET, v = ab @ replicate 12 0\<rparr>)"
proof (cases "ty AND MRT_DUMP_V2_PEER_BIT_I \<noteq> 0")
  case True
  with assms obtain r where "mrt_extract_addr msg (b + 5) (len - 5) AID_INET6 = Inr (a, r)"
    "r \<noteq> - 1" "b1 = b + 5 + 16"
    by (auto simp: bindr_def split: sum.splits if_splits)
  with extract_addr_inet6_inv [of msg "b + 5" "len - 5" a r] True show ?thesis
    by (auto simp: peer_ipv6_def)
next
  case False
  with assms obtain r where "mrt_extract_addr msg (b + 5) (len - 5) AID_INET = Inr (a, r)"
    "r \<noteq> - 1" "b1 = b + 5 + 4"
    by (auto simp: bindr_def split: sum.splits if_splits)
  with extract_addr_inet_inv [of msg "b + 5" "len - 5" a r] False show ?thesis
    by (auto simp: peer_ipv6_def)
qed

lemma peer_asn_inv:
  assumes "(if ty AND MRT_DUMP_V2_PEER_BIT_A \<noteq> 0
            then bindr (rd_u32 msg b1) (\<lambda>as4. Inr (as4, b1 + 4, len1 - 4))
            else bindr (rd_u16 msg b1) (\<lambda>as2. Inr (ucast as2, b1 + 2, len1 - 2)))
           = Inr (as4, b2, (len2 :: u32))"
  shows "drop b1 msg =
           (if peer_as4 ty then enc_u32 as4 else enc_u16 (ucast as4)) @ drop b2 msg \<and>
         b2 = b1 + (if peer_as4 ty then 4 else 2) \<and> (peer_as4 ty \<or> as4 < 65536)"
proof (cases "ty AND MRT_DUMP_V2_PEER_BIT_A \<noteq> 0")
  case True
  with assms have "rd_u32 msg b1 = Inr as4" "b2 = b1 + 4"
    by (auto simp: bindr_def split: sum.splits)
  with rd_u32_inv [of msg b1 as4] True show ?thesis by (simp add: peer_as4_def)
next
  case False
  with assms obtain as2 where "rd_u16 msg b1 = Inr as2" "as4 = ucast as2" "b2 = b1 + 2"
    by (auto simp: bindr_def split: sum.splits)
  with rd_u16_inv [of msg b1 as2] False show ?thesis
    by (simp add: peer_as4_def ucast_u16_u32_u16 ucast_u16_u32_less)
qed

lemma v2_peer_entries_Suc_inv:
  assumes "v2_peer_entries msg b len (Suc n) = Inr es"
  shows "\<exists>wp len2 rest. wire_peer_wf wp \<and>
           drop b msg = enc_peer wp @ drop (b + length (enc_peer wp)) msg \<and>
           v2_peer_entries msg (b + length (enc_peer wp)) len2 n = Inr rest \<and>
           es = peer_of wp # rest"
proof -
  from assms obtain ty bid a b1 len1 as4 b2 len2 rest where
    ty: "rd_u8 msg b = Inr ty" and bid: "rd_u32 msg (b + 1) = Inr bid" and
    ad: "(if ty AND MRT_DUMP_V2_PEER_BIT_I \<noteq> 0
            then bindr (mrt_extract_addr msg (b + 5) (len - 5) AID_INET6) (\<lambda>(a, r).
                 if r = - 1 then Inl Reject else Inr (a, b + 5 + 16, len - 5 - 16))
            else bindr (mrt_extract_addr msg (b + 5) (len - 5) AID_INET) (\<lambda>(a, r).
                 if r = - 1 then Inl Reject else Inr (a, b + 5 + 4, len - 5 - 4)))
           = Inr (a, b1, len1)" and
    asn: "(if ty AND MRT_DUMP_V2_PEER_BIT_A \<noteq> 0
            then bindr (rd_u32 msg b1) (\<lambda>as4. Inr (as4, b1 + 4, len1 - 4))
            else bindr (rd_u16 msg b1) (\<lambda>as2. Inr (ucast as2, b1 + 2, len1 - 2)))
           = Inr (as4, b2, len2)" and
    rec: "v2_peer_entries msg b2 len2 n = Inr rest" and
    es: "es = \<lparr>addr = a, bgp_id = bid, asnum = as4\<rparr> # rest"
    unfolding v2_peer_entries.simps bindr_def
    by (simp split: if_splits sum.splits prod.splits)
  from peer_addr_inv [OF ad] obtain ab where
    ab: "length ab = (if peer_ipv6 ty then 16 else 4)"
      "drop (b + 5) msg = ab @ drop b1 msg" "b1 = b + 5 + length ab"
      "a = (if peer_ipv6 ty then \<lparr>aid = AID_INET6, v = ab\<rparr>
            else \<lparr>aid = AID_INET, v = ab @ replicate 12 0\<rparr>)"
    by blast
  note an = peer_asn_inv [OF asn]
  define wp where "wp = \<lparr>wp_type = ty, wp_bgp_id = bid, wp_addr = ab, wp_asn = as4\<rparr>"
  have wf: "wire_peer_wf wp" using ab(1) an by (simp add: wire_peer_wf_def wp_def)
  have len: "length (enc_peer wp) = 5 + length ab + (if peer_as4 ty then 4 else 2)"
    by (simp add: enc_peer_def wp_def)
  then have b2: "b2 = b + length (enc_peer wp)" using ab(3) an by simp
  have "drop b msg = ty # drop (b + 1) msg" using rd_u8_inv [OF ty] .
  also have "drop (b + 1) msg = enc_u32 bid @ drop (b + 5) msg"
  proof -
    have e: "b + 1 + 4 = b + 5" by simp
    show ?thesis using rd_u32_inv [OF bid] unfolding e .
  qed
  also have "drop (b + 5) msg = ab @ drop b1 msg" by (rule ab(2))
  also have "drop b1 msg =
      (if peer_as4 ty then enc_u32 as4 else enc_u16 (ucast as4)) @ drop b2 msg"
    using an by simp
  finally have "drop b msg = enc_peer wp @ drop b2 msg"
    by (simp add: enc_peer_def wp_def)
  moreover have "es = peer_of wp # rest" by (simp add: es peer_of_def wp_def ab(4))
  ultimately show ?thesis using wf rec b2 by blast
qed

lemma v2_peer_entries_inv:
  "v2_peer_entries msg b len n = Inr es \<Longrightarrow>
   \<exists>ps. length ps = n \<and> list_all wire_peer_wf ps \<and> es = map peer_of ps \<and>
        drop b msg = concat (map enc_peer ps) @
          drop (b + length (concat (map enc_peer ps))) msg"
proof (induction n arbitrary: b len es)
  case 0
  then show ?case by simp
next
  case (Suc n)
  from v2_peer_entries_Suc_inv [OF Suc.prems] obtain wp len2 rest where
    wf: "wire_peer_wf wp" and
    d: "drop b msg = enc_peer wp @ drop (b + length (enc_peer wp)) msg" and
    rec: "v2_peer_entries msg (b + length (enc_peer wp)) len2 n = Inr rest" and
    es: "es = peer_of wp # rest"
    by blast
  from Suc.IH [OF rec] obtain ps where
    ps: "length ps = n" "list_all wire_peer_wf ps" "rest = map peer_of ps"
      "drop (b + length (enc_peer wp)) msg = concat (map enc_peer ps) @
         drop (b + length (enc_peer wp) + length (concat (map enc_peer ps))) msg"
    by blast
  have "drop b msg = concat (map enc_peer (wp # ps)) @
      drop (b + length (concat (map enc_peer (wp # ps)))) msg"
    using d ps(4) by (simp add: add.assoc)
  with wf es ps(1,2,3) show ?case
    by (intro exI [of _ "wp # ps"]) simp
qed

lemma unat_u16_less: "unat (w :: u16) < 65536"
  using unsigned_less [of w, where 'a = nat] by simp

text \<open>
  Claim C6. When \<^verbatim>\<open>mrt_parse_v2_peer\<close> returns a peer context, the record starts with
  the wire form of a table, and the context is that table: its peers are the wire
  peers in their order, as many as the count on the wire, each with the wire's BGP
  identifier, the IPv4 or IPv6 address that bit I selects and the AS number of 2 or 4
  bytes that bit A selects as a 32-bit number; the view is the view name of the wire
  followed by the zero byte that ends a C string (the empty string for a length of
  zero), and the collector's identifier is the wire's.
\<close>

theorem v2_peer_matches_wire:
  assumes "mrt_parse_v2_peer hdr msg = Inr pc"
  shows "\<exists>coll name ps rest.
           msg = enc_peer_table coll name ps @ rest \<and>
           length name < 65536 \<and> length ps < 65536 \<and> list_all wire_peer_wf ps \<and>
           pc = \<lparr>view = Some (name @ [0]), peers = map peer_of ps, collector_id = coll,
                 npeers = of_nat (length ps)\<rparr>"
proof -
  from assms obtain bid cnt nm cnt2 es where
    bid: "rd_u32 msg 0 = Inr bid" and cnt: "rd_u16 msg 4 = Inr cnt" and
    nm: "(if cnt \<noteq> 0 then bindr (rd_bytes msg 6 (unat cnt)) (\<lambda>bs. Inr (bs @ [0]))
          else Inr [0]) = Inr nm" and
    cnt2: "rd_u16 msg (6 + unat cnt) = Inr cnt2" and
    es: "v2_peer_entries msg (6 + unat cnt + 2) (hdr_length hdr - 6 - ucast cnt - 2)
           (unat cnt2) = Inr es" and
    pc: "pc = \<lparr>view = Some nm, peers = es, collector_id = bid, npeers = cnt2\<rparr>"
    unfolding mrt_parse_v2_peer_def bindr_def Let_def
    by (simp split: if_splits sum.splits)
  have "\<exists>name. length name = unat cnt \<and> nm = name @ [0] \<and>
      drop 6 msg = name @ drop (6 + unat cnt) msg"
  proof (cases "cnt = 0")
    case True
    with nm show ?thesis by simp
  next
    case False
    with nm obtain bs where "rd_bytes msg 6 (unat cnt) = Inr bs" "nm = bs @ [0]"
      by (auto simp: bindr_def split: sum.splits)
    with rd_bytes_inv [of msg 6 "unat cnt" bs] show ?thesis by auto
  qed
  then obtain name where name: "length name = unat cnt" "nm = name @ [0]"
    "drop 6 msg = name @ drop (6 + unat cnt) msg" by blast
  from v2_peer_entries_inv [OF es] obtain ps where
    ps: "length ps = unat cnt2" "list_all wire_peer_wf ps" "es = map peer_of ps"
      "drop (6 + unat cnt + 2) msg = concat (map enc_peer ps) @
         drop (6 + unat cnt + 2 + length (concat (map enc_peer ps))) msg"
    by blast
  define rest where "rest = drop (6 + unat cnt + 2 + length (concat (map enc_peer ps))) msg"
  have "msg = drop 0 msg" by simp
  also have "\<dots> = enc_u32 bid @ drop 4 msg" using rd_u32_inv [OF bid] by simp
  also have "drop 4 msg = enc_u16 cnt @ drop 6 msg" using rd_u16_inv [OF cnt] by simp
  also note name(3)
  also have "drop (6 + unat cnt) msg = enc_u16 cnt2 @ drop (6 + unat cnt + 2) msg"
    using rd_u16_inv [OF cnt2] .
  also note ps(4)
  finally have "msg = enc_u32 bid @ enc_u16 cnt @ name @ enc_u16 cnt2 @
      concat (map enc_peer ps) @ rest"
    by (simp add: rest_def)
  moreover have "of_nat (length name) = cnt" "of_nat (length ps) = cnt2"
    by (simp_all add: name(1) ps(1))
  ultimately have "msg = enc_peer_table bid name ps @ rest"
    by (simp add: enc_peer_table_def)
  moreover have "length name < 65536" "length ps < 65536"
    by (simp_all add: name(1) ps(1) unat_u16_less)
  moreover have "pc = \<lparr>view = Some (name @ [0]), peers = map peer_of ps, collector_id = bid,
      npeers = of_nat (length ps)\<rparr>"
    by (simp add: pc name(2) ps(1,3))
  ultimately show ?thesis using ps(2) by blast
qed

lemma v2_peer_entries_pos:
  "0 < n \<Longrightarrow> v2_peer_entries msg b len n = v2_peer_entries msg b len (Suc (n - 1))"
  by simp

theorem v2_peer_matches_wire_witness:
  "\<exists>coll name ps rest.
     [1, 2, 3, 4, 0, 2, 97, 98, 0, 2,
      0, 5, 6, 7, 8, 10, 0, 0, 1, 0, 100,
      3, 9, 9, 9, 9, 32, 1, 13, 184, 0, 0, 0, 0, 0, 0, 0, 0, 0, 0, 0, 1, 0, 1, 0, 0]
       = enc_peer_table coll name ps @ rest \<and>
     length name < 65536 \<and> length ps < 65536 \<and> list_all wire_peer_wf ps \<and>
     \<lparr>view = Some [97, 98, 0],
      peers = [\<lparr>addr = \<lparr>aid = AID_INET, v = [10, 0, 0, 1] @ replicate 12 0\<rparr>,
                 bgp_id = 84281096, asnum = 100\<rparr>,
               \<lparr>addr = \<lparr>aid = AID_INET6,
                         v = [32, 1, 13, 184, 0, 0, 0, 0, 0, 0, 0, 0, 0, 0, 0, 1]\<rparr>,
                 bgp_id = 151587081, asnum = 65536\<rparr>],
      collector_id = 16909060, npeers = 2\<rparr>
       = \<lparr>view = Some (name @ [0]), peers = map peer_of ps, collector_id = coll,
          npeers = of_nat (length ps)\<rparr>"
proof -
  let ?msg = "[1, 2, 3, 4, 0, 2, 97, 98, 0, 2,
      0, 5, 6, 7, 8, 10, 0, 0, 1, 0, 100,
      3, 9, 9, 9, 9, 32, 1, 13, 184, 0, 0, 0, 0, 0, 0, 0, 0, 0, 0, 0, 1, 0, 1, 0, 0] :: u8 list"
  have "mrt_parse_v2_peer \<lparr>hdr_timestamp = 0, hdr_type = 13, hdr_subtype = 1, hdr_length = 46\<rparr>
      ?msg =
    Inr \<lparr>view = Some [97, 98, 0],
      peers = [\<lparr>addr = \<lparr>aid = AID_INET, v = [10, 0, 0, 1] @ replicate 12 0\<rparr>,
                 bgp_id = 84281096, asnum = 100\<rparr>,
               \<lparr>addr = \<lparr>aid = AID_INET6,
                         v = [32, 1, 13, 184, 0, 0, 0, 0, 0, 0, 0, 0, 0, 0, 0, 1]\<rparr>,
                 bgp_id = 151587081, asnum = 65536\<rparr>],
      collector_id = 16909060, npeers = 2\<rparr>"
    by (simp add: parse_eval v2_peer_entries_pos)
  from v2_peer_matches_wire [OF this] show ?thesis .
qed

end
